theory Spec2Isabelle
  imports Main "HOL-Library.Word"
begin

unbundle bit_operations_syntax

section \<open>The event-loop server (the second unit of clientmsg.h)\<close>

text \<open>
  The server is a C program that talks to the kernel through system calls. The model
  keeps the program's own functions (\<open>setnonblocking\<close>, \<open>addfd\<close>, \<open>sig_handler\<close>,
  \<open>addsig\<close>, \<open>main\<close>) apart from the kernel operations they call (the definitions
  whose names end in \<open>_call\<close>), and passes one record of the process state through both.

  The source does not compile as it stands: \<open>setnonblocking\<close> passes the command
  \<open>F_SETTL\<close> and \<open>addfd\<close> calls \<open>setnonblock\<close>, names that nothing declares. They
  are read here as \<open>F_SETFL\<close> and \<open>setnonblocking\<close>, the only names in scope they can
  stand for. \<open>assert\<close> is taken as compiled in (no \<open>NDEBUG\<close>).
\<close>

subsection \<open>Values of the system headers\<close>

type_synonym fd = int
type_synonym cint = "32 word"
type_synonym byte = "8 word"

text \<open>Signal numbers, \<open>errno\<close> values and flag bits as Linux defines them on x86-64.\<close>

definition SIGHUP :: cint where "SIGHUP = 1"
definition SIGINT :: cint where "SIGINT = 2"
definition SIGKILL :: cint where "SIGKILL = 9"
definition SIGTERM :: cint where "SIGTERM = 15"
definition SIGCHLD :: cint where "SIGCHLD = 17"
definition SIGSTOP :: cint where "SIGSTOP = 19"

definition EINTR :: int where "EINTR = 4"
definition EBADF :: int where "EBADF = 9"
definition EAGAIN :: int where "EAGAIN = 11"
definition EEXIST :: int where "EEXIST = 17"
definition EINVAL :: int where "EINVAL = 22"
definition ENOTSOCK :: int where "ENOTSOCK = 88"

definition O_RDWR :: cint where "O_RDWR = 0x2"
definition O_APPEND :: cint where "O_APPEND = 0x400"
definition O_NONBLOCK :: cint where "O_NONBLOCK = 0x800"
definition O_ASYNC :: cint where "O_ASYNC = 0x2000"
definition O_DIRECT :: cint where "O_DIRECT = 0x4000"
definition O_NOATIME :: cint where "O_NOATIME = 0x40000"

definition EPOLLIN :: cint where "EPOLLIN = 0x1"
definition EPOLLET :: cint where "EPOLLET = 0x80000000"

definition MAX_EVENT_NUMBER :: nat where "MAX_EVENT_NUMBER = 1024"

subsection \<open>The process state\<close>

text \<open>
  What the program printed, and the system calls it made, in order. A \<open>Recv\<close> entry
  also keeps the bytes the call handed to the program.
\<close>

datatype message = Usage | Errno_is int | Epoll_failure | Close_fds | Assertion_failed string

datatype epoll_event = Epoll_event (events: cint) (data_fd: fd)

datatype call =
    Socket | Bind fd | Listen fd | Epoll_create | Epoll_ctl_add fd fd epoll_event
  | Fcntl_getfl fd | Fcntl_setfl fd cint | Socketpair | Sigaction cint
  | Epoll_wait fd | Accept fd | Recv fd nat "byte list" | Send fd "byte list" | Close fd

text \<open>
  \<open>flags\<close>: the open descriptors with their file status flags. \<open>interest\<close>: the interest
  list of the one epoll instance. \<open>pair\<close>: the two connected sockets of \<open>socketpair\<close> as
  the kernel knows them, and \<open>bridge\<close> the bytes sent into the second and not yet received
  from the first; \<open>capacity\<close> is the room of that queue, counted in the one-byte
  messages that the handler sends (the source sets no buffer size: the room is what the
  kernel gives a socket pair, and is a parameter here). \<open>handlers\<close>: the signals with
  \<open>sig_handler\<close> installed. \<open>pipefd0\<close>, \<open>pipefd1\<close>: the static array \<open>pipefd\<close>.
  \<open>stop_server\<close> is the local variable of \<open>main\<close>; it lives in the same record so that
  the effect of every function on it can be stated.
\<close>

record proc =
  flags :: "fd \<rightharpoonup> cint"
  interest :: "fd \<rightharpoonup> epoll_event"
  pair :: "(fd \<times> fd) option"
  bridge :: "byte list"
  capacity :: nat
  handlers :: "cint list"
  pipefd0 :: fd
  pipefd1 :: fd
  errno :: int
  stop_server :: bool
  stdout :: "message list"
  stderr :: "message list"
  calls :: "call list"

text \<open>What the environment decides: the result of a call that the state does not fix.\<close>

datatype 'a sysret = Fails int | Returns 'a

datatype outcome = Exited int proc | Aborted proc | Waiting proc | Stuck

definition logged :: "call \<Rightarrow> proc \<Rightarrow> proc" where
  "logged c st = st\<lparr>calls := calls st @ [c]\<rparr>"

definition printf :: "message \<Rightarrow> proc \<Rightarrow> proc" where
  "printf m st = st\<lparr>stdout := stdout st @ [m]\<rparr>"

definition assert_failed :: "string \<Rightarrow> proc \<Rightarrow> outcome" where
  "assert_failed e st = Aborted (st\<lparr>stderr := stderr st @ [Assertion_failed e]\<rparr>)"

subsection \<open>Kernel operations\<close>

text \<open>
  \<open>fcntl(fd, F_GETFL)\<close> and \<open>fcntl(fd, F_SETFL, arg)\<close>. Linux lets \<open>F_SETFL\<close> change
  only the bits of \<open>SETFL_MASK\<close>; the access mode and the other bits of \<open>arg\<close> are
  ignored. Both fail with \<open>EBADF\<close> on a descriptor that is not open.
\<close>

definition SETFL_MASK :: cint where
  "SETFL_MASK = O_APPEND OR O_NONBLOCK OR O_ASYNC OR O_DIRECT OR O_NOATIME"

definition fcntl_getfl_call :: "fd \<Rightarrow> proc \<Rightarrow> cint \<times> proc" where
  "fcntl_getfl_call fd st =
     (let st1 = logged (Fcntl_getfl fd) st in
      case flags st fd of
        None \<Rightarrow> (- 1, st1\<lparr>errno := EBADF\<rparr>)
      | Some f \<Rightarrow> (f, st1))"

definition fcntl_setfl_call :: "fd \<Rightarrow> cint \<Rightarrow> proc \<Rightarrow> cint \<times> proc" where
  "fcntl_setfl_call fd arg st =
     (let st1 = logged (Fcntl_setfl fd arg) st in
      case flags st fd of
        None \<Rightarrow> (- 1, st1\<lparr>errno := EBADF\<rparr>)
      | Some f \<Rightarrow>
          (0, st1\<lparr>flags := (flags st)(fd \<mapsto> (f AND NOT SETFL_MASK) OR (arg AND SETFL_MASK))\<rparr>))"

text \<open>
  \<open>epoll_ctl(epollfd, EPOLL_CTL_ADD, fd, &event)\<close>: \<open>EBADF\<close> when either descriptor is
  not open, \<open>EINVAL\<close> when \<open>fd\<close> is the epoll descriptor, \<open>EEXIST\<close> when \<open>fd\<close> is
  registered already.
\<close>

definition epoll_ctl_add_call :: "fd \<Rightarrow> fd \<Rightarrow> epoll_event \<Rightarrow> proc \<Rightarrow> int \<times> proc" where
  "epoll_ctl_add_call epollfd fd event st =
     (let st1 = logged (Epoll_ctl_add epollfd fd event) st in
      if flags st epollfd = None \<or> flags st fd = None then (- 1, st1\<lparr>errno := EBADF\<rparr>)
      else if fd = epollfd then (- 1, st1\<lparr>errno := EINVAL\<rparr>)
      else if interest st fd \<noteq> None then (- 1, st1\<lparr>errno := EEXIST\<rparr>)
      else (0, st1\<lparr>interest := (interest st)(fd \<mapsto> event)\<rparr>))"

text \<open>
  \<open>send\<close> and \<open>recv\<close> on the socket pair. A \<open>send\<close> into the second socket appends to
  the queue when the bytes fit; when they do not, a nonblocking descriptor fails with
  \<open>EAGAIN\<close> and a blocking one does not return (\<open>None\<close>). A \<open>recv\<close> from the first
  socket takes at most \<open>n\<close> bytes from the front of the queue; on an empty queue a
  nonblocking descriptor fails with \<open>EAGAIN\<close> and a blocking one does not return. The
  program sends and receives on no other descriptor: there the calls fail.
\<close>

definition send_call :: "fd \<Rightarrow> byte list \<Rightarrow> proc \<Rightarrow> (int \<times> proc) option" where
  "send_call fd buf st =
     (let st1 = logged (Send fd buf) st in
      case flags st fd of
        None \<Rightarrow> Some (- 1, st1\<lparr>errno := EBADF\<rparr>)
      | Some f \<Rightarrow>
          if map_option snd (pair st) \<noteq> Some fd then Some (- 1, st1\<lparr>errno := ENOTSOCK\<rparr>)
          else if length (bridge st) + length buf \<le> capacity st
            then Some (int (length buf), st1\<lparr>bridge := bridge st @ buf\<rparr>)
          else if f AND O_NONBLOCK \<noteq> 0 then Some (- 1, st1\<lparr>errno := EAGAIN\<rparr>)
          else None)"

definition recv_call :: "fd \<Rightarrow> nat \<Rightarrow> proc \<Rightarrow> (int \<times> byte list \<times> proc) option" where
  "recv_call fd n st =
     (let st1 = logged (Recv fd n []) st in
      case flags st fd of
        None \<Rightarrow> Some (- 1, [], st1\<lparr>errno := EBADF\<rparr>)
      | Some f \<Rightarrow>
          if map_option fst (pair st) \<noteq> Some fd then Some (- 1, [], st1\<lparr>errno := ENOTSOCK\<rparr>)
          else if bridge st \<noteq> []
            then Some (int (length (take n (bridge st))), take n (bridge st),
                       (logged (Recv fd n (take n (bridge st))) st)\<lparr>bridge := drop n (bridge st)\<rparr>)
          else if f AND O_NONBLOCK \<noteq> 0 then Some (- 1, [], st1\<lparr>errno := EAGAIN\<rparr>)
          else None)"

text \<open>The bytes that the \<open>recv\<close> calls of a log handed to the program, in order.\<close>

fun received :: "call list \<Rightarrow> byte list" where
  "received [] = []"
| "received (Recv fd n bs # cs) = bs @ received cs"
| "received (c # cs) = received cs"

text \<open>The calls whose result the environment supplies.\<close>

definition socket_call :: "fd sysret \<Rightarrow> proc \<Rightarrow> int \<times> proc" where
  "socket_call r st =
     (let st1 = logged Socket st in
      case r of
        Fails e \<Rightarrow> (- 1, st1\<lparr>errno := e\<rparr>)
      | Returns s \<Rightarrow> (s, st1\<lparr>flags := (flags st)(s \<mapsto> O_RDWR)\<rparr>))"

definition bind_call :: "fd \<Rightarrow> unit sysret \<Rightarrow> proc \<Rightarrow> int \<times> proc" where
  "bind_call fd r st =
     (let st1 = logged (Bind fd) st in
      case r of Fails e \<Rightarrow> (- 1, st1\<lparr>errno := e\<rparr>) | Returns u \<Rightarrow> (0, st1))"

definition listen_call :: "fd \<Rightarrow> unit sysret \<Rightarrow> proc \<Rightarrow> int \<times> proc" where
  "listen_call fd r st =
     (let st1 = logged (Listen fd) st in
      case r of Fails e \<Rightarrow> (- 1, st1\<lparr>errno := e\<rparr>) | Returns u \<Rightarrow> (0, st1))"

definition epoll_create_call :: "fd sysret \<Rightarrow> proc \<Rightarrow> int \<times> proc" where
  "epoll_create_call r st =
     (let st1 = logged Epoll_create st in
      case r of
        Fails e \<Rightarrow> (- 1, st1\<lparr>errno := e\<rparr>)
      | Returns s \<Rightarrow> (s, st1\<lparr>flags := (flags st)(s \<mapsto> O_RDWR)\<rparr>))"

text \<open>\<open>socketpair(PF_UNIX, SOCK_STREAM, 0, pipefd)\<close> stores both descriptors in \<open>pipefd\<close>.\<close>

definition socketpair_call :: "(fd \<times> fd) sysret \<Rightarrow> proc \<Rightarrow> int \<times> proc" where
  "socketpair_call r st =
     (let st1 = logged Socketpair st in
      case r of
        Fails e \<Rightarrow> (- 1, st1\<lparr>errno := e\<rparr>)
      | Returns (a, b) \<Rightarrow>
          (0, st1\<lparr>flags := (flags st)(a \<mapsto> O_RDWR, b \<mapsto> O_RDWR), pair := Some (a, b),
                  bridge := [], pipefd0 := a, pipefd1 := b\<rparr>))"

definition accept_call :: "fd \<Rightarrow> fd sysret \<Rightarrow> proc \<Rightarrow> int \<times> proc" where
  "accept_call fd r st =
     (let st1 = logged (Accept fd) st in
      case r of
        Fails e \<Rightarrow> (- 1, st1\<lparr>errno := e\<rparr>)
      | Returns c \<Rightarrow> (c, st1\<lparr>flags := (flags st)(c \<mapsto> O_RDWR)\<rparr>))"

text \<open>\<open>sigaction\<close> fails with \<open>EINVAL\<close> on an invalid number and on SIGKILL and SIGSTOP.\<close>

definition sigaction_call :: "cint \<Rightarrow> proc \<Rightarrow> int \<times> proc" where
  "sigaction_call sig st =
     (let st1 = logged (Sigaction sig) st in
      if sint sig \<le> 0 \<or> 64 < sint sig \<or> sig = SIGKILL \<or> sig = SIGSTOP
        then (- 1, st1\<lparr>errno := EINVAL\<rparr>)
      else (0, st1\<lparr>handlers := sig # handlers st\<rparr>))"

text \<open>\<open>close\<close> also drops the descriptor from the interest list.\<close>

definition close_call :: "fd \<Rightarrow> proc \<Rightarrow> int \<times> proc" where
  "close_call fd st =
     (let st1 = logged (Close fd) st in
      case flags st fd of
        None \<Rightarrow> (- 1, st1\<lparr>errno := EBADF\<rparr>)
      | Some f \<Rightarrow> (0, st1\<lparr>flags := (flags st)(fd := None), interest := (interest st)(fd := None)\<rparr>))"

subsection \<open>The program: descriptors and the signal handler\<close>

text \<open>
  \<open>setnonblocking\<close> reads the flags, ors \<open>O_NONBLOCK\<close> into what \<open>fcntl\<close> returned
  (also into the \<open>-1\<close> of a failure) and writes the result back. It checks neither
  call and has no \<open>return\<close> statement: its callers get no value from it.
\<close>

definition setnonblocking :: "fd \<Rightarrow> proc \<Rightarrow> proc" where
  "setnonblocking fd st =
     (let (old_option, st1) = fcntl_getfl_call fd st;
          new_option = old_option OR O_NONBLOCK;
          (r, st2) = fcntl_setfl_call fd new_option st1
      in st2)"

definition addfd :: "fd \<Rightarrow> fd \<Rightarrow> proc \<Rightarrow> proc" where
  "addfd epollfd fd st =
     (let event = Epoll_event (EPOLLIN OR EPOLLET) fd;
          (r, st1) = epoll_ctl_add_call epollfd fd event st
      in setnonblocking fd st1)"

text \<open>
  \<open>send(pipefd[1], (char*)&msg, 1, 0)\<close> sends the first byte of the object \<open>msg\<close>.
  \<open>object_bytes\<close> is the representation of an \<open>int\<close> on a little-endian machine.
\<close>

definition object_bytes :: "cint \<Rightarrow> byte list" where
  "object_bytes w = map (\<lambda>k. ucast (drop_bit (8 * k) w)) [0..<4]"

definition sig_handler :: "cint \<Rightarrow> proc \<Rightarrow> proc option" where
  "sig_handler sig st =
     (let save_errno = errno st;
          msg = sig
      in case send_call (pipefd1 st) (take 1 (object_bytes msg)) st of
           None \<Rightarrow> None
         | Some (r, st1) \<Rightarrow> Some (st1\<lparr>errno := save_errno\<rparr>))"

definition addsig :: "cint \<Rightarrow> proc \<Rightarrow> outcome + proc" where
  "addsig sig st =
     (let (r, st1) = sigaction_call sig st
      in if r \<noteq> - 1 then Inr st1 else Inl (assert_failed ''sigaction(sig, &sa, NULL) != -1'' st1))"

text \<open>
  A signal that arrives runs its handler to the end before the program goes on
  (\<open>sigfillset(&sa.sa_mask)\<close> blocks every other signal meanwhile). The traces below
  deliver signals whose handler is installed; any other signal is left out of the model.
\<close>

definition deliver :: "cint \<Rightarrow> proc \<Rightarrow> proc option" where
  "deliver sig st = (if sig \<in> set (handlers st) then sig_handler sig st else Some st)"

fun deliver_all :: "cint list \<Rightarrow> proc \<Rightarrow> proc option" where
  "deliver_all [] st = Some st"
| "deliver_all (sig # sigs) st =
     (case deliver sig st of None \<Rightarrow> None | Some st1 \<Rightarrow> deliver_all sigs st1)"

text \<open>
  Both ends of the pair are the descriptors in \<open>pipefd\<close>, open and nonblocking: what
  lines 106 to 109 of \<open>main\<close> set up.
\<close>

definition nonblocking_bridge :: "proc \<Rightarrow> bool" where
  "nonblocking_bridge st \<longleftrightarrow>
     pair st = Some (pipefd0 st, pipefd1 st)
     \<and> (case flags st (pipefd0 st) of None \<Rightarrow> False | Some f \<Rightarrow> f AND O_NONBLOCK \<noteq> 0)
     \<and> (case flags st (pipefd1 st) of None \<Rightarrow> False | Some f \<Rightarrow> f AND O_NONBLOCK \<noteq> 0)"

subsection \<open>The program: the event loop\<close>

text \<open>
  One step of the environment is one call of \<open>epoll_wait\<close>: the signals delivered
  before the call returns, then its result, a failure with its \<open>errno\<close> or the ready
  descriptors. Each ready entry carries what \<open>accept\<close> will return if the program calls
  it for that entry. \<open>epoll_wait\<close> returns at most \<open>maxevents\<close> entries. The steps are not
  restricted to those of a Linux kernel, where a handler that runs while the call blocks
  makes it fail with \<open>EINTR\<close>; signals are delivered at these calls only.
\<close>

datatype ready = Ready (event: epoll_event) (conn: "fd sysret")

datatype wait_result = Wait_failed int | Wait_ready "ready list"

datatype step = Step (arrivals: "cint list") (result: wait_result)

definition epoll_wait_call :: "fd \<Rightarrow> nat \<Rightarrow> step \<Rightarrow> proc \<Rightarrow> (int \<times> ready list \<times> proc) option" where
  "epoll_wait_call epollfd maxevents s st =
     (case deliver_all (arrivals s) (logged (Epoll_wait epollfd) st) of
        None \<Rightarrow> None
      | Some st1 \<Rightarrow>
          (case result s of
             Wait_failed e \<Rightarrow> Some (- 1, [], st1\<lparr>errno := e\<rparr>)
           | Wait_ready evs \<Rightarrow>
               Some (int (length (take maxevents evs)), take maxevents evs, st1)))"

text \<open>
  The inner \<open>for\<close> over \<open>signals[0..ret)\<close> with its \<open>switch\<close>. \<open>signals[i]\<close> is a
  \<open>char\<close> (signed on x86-64), promoted to \<open>int\<close> for the comparison with the labels.
\<close>

definition char_value :: "byte \<Rightarrow> cint" where
  "char_value c = scast c"

fun switch_signals :: "byte list \<Rightarrow> proc \<Rightarrow> proc" where
  "switch_signals [] st = st"
| "switch_signals (c # cs) st =
     (if char_value c = SIGCHLD \<or> char_value c = SIGHUP then switch_signals cs st
      else if char_value c = SIGTERM \<or> char_value c = SIGINT
        then switch_signals cs (st\<lparr>stop_server := True\<rparr>)
      else switch_signals cs st)"

text \<open>The body of the outer \<open>for\<close>, for one entry of \<open>events\<close>.\<close>

definition ready_event :: "fd \<Rightarrow> fd \<Rightarrow> ready \<Rightarrow> proc \<Rightarrow> proc option" where
  "ready_event epollfd listenfd r st =
     (let sockfd = data_fd (event r) in
      if sockfd = listenfd then
        (let (connfd, st1) = accept_call listenfd (conn r) st
         in Some (addfd epollfd connfd st1))
      else if sockfd = pipefd0 st \<and> events (event r) AND EPOLLIN \<noteq> 0 then
        (case recv_call (pipefd0 st) 1024 st of
           None \<Rightarrow> None
         | Some (ret, signals, st1) \<Rightarrow>
             if ret = - 1 then Some st1
             else Some (switch_signals (take (nat ret) signals) st1))
      else Some st)"

fun ready_events :: "fd \<Rightarrow> fd \<Rightarrow> ready list \<Rightarrow> proc \<Rightarrow> proc option" where
  "ready_events epollfd listenfd [] st = Some st"
| "ready_events epollfd listenfd (r # rs) st =
     (case ready_event epollfd listenfd r st of
        None \<Rightarrow> None
      | Some st1 \<Rightarrow> ready_events epollfd listenfd rs st1)"

text \<open>The body of the \<open>while\<close>: it goes round again, breaks, or does not return.\<close>

datatype flow = Continue proc | Break proc | Blocked

definition loop_body :: "fd \<Rightarrow> fd \<Rightarrow> step \<Rightarrow> proc \<Rightarrow> flow" where
  "loop_body epollfd listenfd s st =
     (case epoll_wait_call epollfd MAX_EVENT_NUMBER s st of
        None \<Rightarrow> Blocked
      | Some (number, evs, st1) \<Rightarrow>
          if number < 0 \<and> errno st1 \<noteq> EINTR then Break (printf Epoll_failure st1)
          else (case ready_events epollfd listenfd (take (nat number) evs) st1 of
                  None \<Rightarrow> Blocked
                | Some st2 \<Rightarrow> Continue st2))"

text \<open>
  \<open>while(!stop_server)\<close> over the steps of the environment. \<open>Inr\<close>: the loop was left,
  in this state and with these steps not looked at. \<open>Inl (Waiting st)\<close>: the steps ran
  out while the program was about to block in \<open>epoll_wait\<close>.
\<close>

fun event_loop :: "fd \<Rightarrow> fd \<Rightarrow> step list \<Rightarrow> proc \<Rightarrow> outcome + proc \<times> step list" where
  "event_loop epollfd listenfd [] st =
     (if stop_server st then Inr (st, []) else Inl (Waiting st))"
| "event_loop epollfd listenfd (s # ss) st =
     (if stop_server st then Inr (st, s # ss)
      else case loop_body epollfd listenfd s st of
             Continue st1 \<Rightarrow> event_loop epollfd listenfd ss st1
           | Break st1 \<Rightarrow> Inr (st1, ss)
           | Blocked \<Rightarrow> Inl Stuck)"

subsection \<open>The program: \<open>main\<close>\<close>

text \<open>
  What the environment fixes before the loop: the argument count, the room of a socket
  pair and the results of the setup calls. The process starts with descriptors 0, 1 and 2
  open and \<open>pipefd\<close> zeroed.
\<close>

record boot =
  argc :: int
  room :: nat
  socket_r :: "fd sysret"
  bind_r :: "unit sysret"
  listen_r :: "unit sysret"
  epoll_create_r :: "fd sysret"
  socketpair_r :: "(fd \<times> fd) sysret"

definition start :: "nat \<Rightarrow> proc" where
  "start n =
     \<lparr>flags = [0 \<mapsto> O_RDWR, 1 \<mapsto> O_RDWR, 2 \<mapsto> O_RDWR], interest = Map.empty, pair = None,
      bridge = [], capacity = n, handlers = [], pipefd0 = 0, pipefd1 = 0, errno = 0,
      stop_server = False, stdout = [], stderr = [], calls = []\<rparr>"

text \<open>Lines 90 to 116: everything between the argument check and the loop.\<close>

definition main_setup :: "boot \<Rightarrow> proc \<Rightarrow> outcome + fd \<times> fd \<times> proc" where
  "main_setup b st0 =
     (let (listenfd, st1) = socket_call (socket_r b) st0 in
      if \<not> listenfd \<ge> 0 then Inl (assert_failed ''listenfd >= 0'' st1) else
      let (ret, st2) = bind_call listenfd (bind_r b) st1;
          st3 = (if ret = - 1 then printf (Errno_is (errno st2)) st2 else st2);
          (ret, st4) = listen_call listenfd (listen_r b) st3 in
      if \<not> ret \<noteq> - 1 then Inl (assert_failed ''ret != -1'' st4) else
      let (epollfd, st5) = epoll_create_call (epoll_create_r b) st4 in
      if \<not> epollfd \<noteq> - 1 then Inl (assert_failed ''epollfd != -1'' st5) else
      let st6 = addfd epollfd listenfd st5;
          (ret, st7) = socketpair_call (socketpair_r b) st6 in
      if \<not> ret \<noteq> - 1 then Inl (assert_failed ''ret != -1'' st7) else
      let st8 = setnonblocking (pipefd1 st7) st7;
          st9 = addfd epollfd (pipefd0 st8) st8 in
      case addsig SIGHUP st9 of Inl out \<Rightarrow> Inl out | Inr st10 \<Rightarrow>
      case addsig SIGCHLD st10 of Inl out \<Rightarrow> Inl out | Inr st11 \<Rightarrow>
      case addsig SIGTERM st11 of Inl out \<Rightarrow> Inl out | Inr st12 \<Rightarrow>
      case addsig SIGINT st12 of Inl out \<Rightarrow> Inl out | Inr st13 \<Rightarrow>
      Inr (epollfd, listenfd, st13\<lparr>stop_server := False\<rparr>))"

text \<open>Lines 160 to 164: what follows the loop.\<close>

definition teardown :: "fd \<Rightarrow> proc \<Rightarrow> outcome" where
  "teardown listenfd st =
     (let st1 = printf Close_fds st;
          (r1, st2) = close_call listenfd st1;
          (r2, st3) = close_call (pipefd1 st2) st2;
          (r3, st4) = close_call (pipefd0 st3) st3
      in Exited 0 st4)"

definition server_main :: "boot \<Rightarrow> step list \<Rightarrow> outcome" where
  "server_main b steps =
     (if argc b \<le> 2 then Exited 1 (printf Usage (start (room b)))
      else case main_setup b (start (room b)) of
             Inl out \<Rightarrow> out
           | Inr (epollfd, listenfd, st) \<Rightarrow>
               (case event_loop epollfd listenfd steps st of
                  Inl out \<Rightarrow> out
                | Inr (st1, rest) \<Rightarrow> teardown listenfd st1))"

text \<open>What an outcome shows of the process: its exit status, and the state it is in.\<close>

fun exit_status :: "outcome \<Rightarrow> int option" where
  "exit_status (Exited n st) = Some n"
| "exit_status out = None"

fun last_state :: "outcome \<Rightarrow> proc option" where
  "last_state (Exited n st) = Some st"
| "last_state (Aborted st) = Some st"
| "last_state (Waiting st) = Some st"
| "last_state Stuck = None"

section \<open>The chat client (client.c and the first unit of clientmsg.h)\<close>

definition EXIT :: cint where "EXIT = - 1"
definition USER :: cint where "USER = 1"
definition MSG :: cint where "MSG = 2"
definition OK :: cint where "OK = 3"

record CLIENTMSG =
  op :: cint
  username :: string
  buf :: string

text \<open>What the receiving thread prints.\<close>

datatype line = Login string | Logout string | Said string string

text \<open>
  One round of the \<open>while(1)\<close> of \<open>process_cli\<close>, given what \<open>recv\<close> returned and
  what it left in the zeroed \<open>clientMsg\<close>.
\<close>

definition process_cli_round :: "int \<times> CLIENTMSG \<Rightarrow> line list \<Rightarrow> line list" where
  "process_cli_round r out =
     (let len = fst r; clientMsg = snd r in
      if len > 0 then
        (if op clientMsg = USER then out @ [Login (username clientMsg)]
         else if op clientMsg = EXIT then out @ [Logout (username clientMsg)]
         else if op clientMsg = MSG then out @ [Said (username clientMsg) (buf clientMsg)]
         else out)
      else out)"

text \<open>
  \<open>process_cli\<close> over the results of its successive \<open>recv\<close> calls: \<open>rx k\<close> is what
  the \<open>k\<close>-th call returns. Its value would be the lines printed when it returns;
  \<open>None\<close> is not returning.
\<close>

partial_function (option) process_cli :: "(nat \<Rightarrow> int \<times> CLIENTMSG) \<Rightarrow> nat \<Rightarrow> line list \<Rightarrow> line list option" where
  "process_cli rx k out = process_cli rx (Suc k) (process_cli_round (rx k) out)"

text \<open>The same rounds over a finite run of results: what has been printed by then.\<close>

fun process_cli_rounds :: "(int \<times> CLIENTMSG) list \<Rightarrow> line list \<Rightarrow> line list" where
  "process_cli_rounds [] out = out"
| "process_cli_rounds (r # rs) out = process_cli_rounds rs (process_cli_round r out)"

text \<open>
  The receiving thread runs \<open>func\<close> (lines 78 to 84): \<open>process_cli\<close>, then \<open>free(arg)\<close>
  and \<open>pthread_exit\<close>. It is in the loop of \<open>process_cli\<close>, about to call \<open>recv\<close> for
  the \<open>k\<close>-th time; or at line 82, \<open>process_cli\<close> having returned; or ended, by
  \<open>pthread_exit\<close> or by a cancellation. Each state carries the lines printed so far.
\<close>

datatype thread =
    In_process_cli nat "line list"
  | After_process_cli "line list"
  | Thread_exited "line list"
  | Thread_cancelled "line list"

text \<open>
  One step of the thread. In the loop it is one round, which ends at the closing brace
  of \<open>while(1)\<close> and so at the next \<open>recv\<close>: the loop has no \<open>break\<close> and no \<open>return\<close>.
  \<open>recv\<close> is a cancellation point, and the program leaves the thread's cancellation
  deferred and enabled: when \<open>pthread_cancel\<close> has been called for it, the thread ends in
  its \<open>recv\<close>.
\<close>

fun func_step :: "(nat \<Rightarrow> int \<times> CLIENTMSG) \<Rightarrow> bool \<Rightarrow> thread \<Rightarrow> thread" where
  "func_step rx cancel (In_process_cli k out) =
     (if cancel then Thread_cancelled out
      else In_process_cli (Suc k) (process_cli_round (rx k) out))"
| "func_step rx cancel (After_process_cli out) = Thread_exited out"
| "func_step rx cancel (Thread_exited out) = Thread_exited out"
| "func_step rx cancel (Thread_cancelled out) = Thread_cancelled out"

text \<open>
  The main thread from line 56 on: in its \<open>while(1)\<close>, at \<open>pthread_cancel(tid)\<close> (line
  67), at \<open>close(sockfd)\<close> (line 73), or returned from \<open>main\<close>. \<open>input\<close> holds the lines
  that \<open>gets\<close> will read (each taken to fit \<open>buf\<close>), \<open>sent\<close> the messages sent on
  \<open>sockfd\<close>.
\<close>

datatype main_at = In_while | At_pthread_cancel | At_close | Main_returned

record client =
  clientMsgSend :: CLIENTMSG
  input :: "string list"
  sent :: "CLIENTMSG list"
  main_at :: main_at
  cancel_requested :: bool
  receiver :: thread

text \<open>
  One step of the main thread: one round of its loop (with no line to read it waits in
  \<open>gets\<close>), or one of the calls after the loop.
\<close>

definition main_step :: "client \<Rightarrow> client" where
  "main_step c =
     (case main_at c of
        In_while \<Rightarrow>
          (case input c of
             [] \<Rightarrow> c
           | l # ls \<Rightarrow>
               (let m = (clientMsgSend c)\<lparr>op := MSG, buf := l\<rparr> in
                if l = ''bye''
                then c\<lparr>input := ls, clientMsgSend := m\<lparr>op := EXIT\<rparr>,
                       sent := sent c @ [m\<lparr>op := EXIT\<rparr>], main_at := At_pthread_cancel\<rparr>
                else c\<lparr>input := ls, clientMsgSend := m, sent := sent c @ [m]\<rparr>))
      | At_pthread_cancel \<Rightarrow> c\<lparr>cancel_requested := True, main_at := At_close\<rparr>
      | At_close \<Rightarrow> c\<lparr>main_at := Main_returned\<rparr>
      | Main_returned \<Rightarrow> c)"

text \<open>
  The two threads under a schedule: who takes the next step. When \<open>main\<close> has returned
  the process is over and nothing runs.
\<close>

datatype turn = Main_thread | Receiving_thread

definition client_step :: "(nat \<Rightarrow> int \<times> CLIENTMSG) \<Rightarrow> turn \<Rightarrow> client \<Rightarrow> client" where
  "client_step rx t c =
     (if main_at c = Main_returned then c
      else case t of
             Main_thread \<Rightarrow> main_step c
           | Receiving_thread \<Rightarrow>
               c\<lparr>receiver := func_step rx (cancel_requested c) (receiver c)\<rparr>)"

fun client_run :: "(nat \<Rightarrow> int \<times> CLIENTMSG) \<Rightarrow> turn list \<Rightarrow> client \<Rightarrow> client" where
  "client_run rx [] c = c"
| "client_run rx (t # ts) c = client_run rx ts (client_step rx t c)"

section \<open>A concrete environment\<close>

text \<open>
  An environment in which every setup call succeeds: the listening socket is descriptor 3,
  the epoll instance 4, the socket pair 5 and 6, with room for 278 one-byte messages (what
  a socket pair of Linux holds with its default buffer size). \<open>example_ready\<close> is the
  state in which \<open>main\<close> enters its loop there.
\<close>

definition example_boot :: boot where
  "example_boot =
     \<lparr>argc = 3, room = 278, socket_r = Returns 3, bind_r = Returns (), listen_r = Returns (),
      epoll_create_r = Returns 4, socketpair_r = Returns (5, 6)\<rparr>"

definition example_ready :: proc where
  "example_ready =
     \<lparr>flags = [0 \<mapsto> 2, 1 \<mapsto> 2, 2 \<mapsto> 2, 4 \<mapsto> 2, 3 \<mapsto> 2050, 6 \<mapsto> 2050, 5 \<mapsto> 2050],
      interest = [3 \<mapsto> Epoll_event 2147483649 3, 5 \<mapsto> Epoll_event 2147483649 5],
      pair = Some (5, 6), bridge = [], capacity = 278, handlers = [2, 15, 17, 1],
      pipefd0 = 5, pipefd1 = 6, errno = 0, stop_server = False, stdout = [], stderr = [],
      calls =
        [Socket, Bind 3, Listen 3, Epoll_create, Epoll_ctl_add 4 3 (Epoll_event 2147483649 3),
         Fcntl_getfl 3, Fcntl_setfl 3 2050, Socketpair, Fcntl_getfl 6, Fcntl_setfl 6 2050,
         Epoll_ctl_add 4 5 (Epoll_event 2147483649 5), Fcntl_getfl 5, Fcntl_setfl 5 2050,
         Sigaction 1, Sigaction 17, Sigaction 15, Sigaction 2]\<rparr>"

section \<open>Properties of the server\<close>

subsection \<open>Evaluation\<close>

lemmas header_defs =
  SIGHUP_def SIGINT_def SIGKILL_def SIGTERM_def SIGCHLD_def SIGSTOP_def
  EINTR_def EBADF_def EAGAIN_def EEXIST_def EINVAL_def ENOTSOCK_def
  O_RDWR_def O_APPEND_def O_NONBLOCK_def O_ASYNC_def O_DIRECT_def O_NOATIME_def
  EPOLLIN_def EPOLLET_def MAX_EVENT_NUMBER_def SETFL_MASK_def

lemmas call_defs =
  logged_def printf_def assert_failed_def fcntl_getfl_call_def fcntl_setfl_call_def
  epoll_ctl_add_call_def send_call_def recv_call_def socket_call_def bind_call_def
  listen_call_def epoll_create_call_def socketpair_call_def accept_call_def
  sigaction_call_def close_call_def

lemmas program_defs =
  setnonblocking_def addfd_def sig_handler_def addsig_def deliver_def
  epoll_wait_call_def char_value_def ready_event_def loop_body_def main_setup_def
  teardown_def server_main_def start_def

lemma first_object_byte: "take (Suc 0) (object_bytes w) = [ucast w]"
  by (simp add: object_bytes_def upt_rec)

text \<open>
  Concrete runs are evaluated by the simplifier with the definitions above and the weak
  congruence rules for \<open>let\<close> and pairs, which make it evaluate a bound value before
  it looks at the body.
\<close>

lemma example_setup: "main_setup example_boot (start 278) = Inr (4, 3, example_ready)"
  by (simp add: example_boot_def example_ready_def header_defs call_defs program_defs
      cong: let_weak_cong prod.case_cong_weak)

lemma example_main:
  "server_main example_boot steps =
     (case event_loop 4 3 steps example_ready of
        Inl out \<Rightarrow> out
      | Inr (st1, rest) \<Rightarrow> teardown 3 st1)"
proof -
  have "argc example_boot = 3" "room example_boot = 278"
    by (simp_all add: example_boot_def)
  then show ?thesis
    by (simp add: server_main_def example_setup)
qed

subsection \<open>Flags and the nonblocking adapter\<close>

lemma setfl_mask_absorbs:
  "nb AND m = nb \<Longrightarrow> ((f :: cint) AND NOT m) OR ((f OR nb) AND m) = f OR nb"
proof (rule bit_word_eqI)
  fix n
  assume a: "nb AND m = nb" and n: "n < LENGTH(32)"
  have "bit nb n \<Longrightarrow> bit m n" using a by (metis bit_and_iff)
  then show "bit (f AND NOT m OR (f OR nb) AND m) n = bit (f OR nb) n"
    using n by (auto simp: bit_simps)
qed

lemma nonblock_in_mask: "O_NONBLOCK AND SETFL_MASK = O_NONBLOCK"
  by (simp add: O_NONBLOCK_def SETFL_MASK_def O_APPEND_def O_ASYNC_def O_DIRECT_def O_NOATIME_def)

lemma setfl_keeps: "(f AND NOT SETFL_MASK) OR ((f OR O_NONBLOCK) AND SETFL_MASK) = f OR O_NONBLOCK"
  by (rule setfl_mask_absorbs [OF nonblock_in_mask])

lemma nonblock_set: "(f OR O_NONBLOCK) AND O_NONBLOCK \<noteq> 0"
  by (simp add: O_NONBLOCK_def word_ao_absorbs)

lemma setnonblocking_open:
  "flags st fd = Some f \<Longrightarrow>
   setnonblocking fd st =
     st\<lparr>calls := calls st @ [Fcntl_getfl fd, Fcntl_setfl fd (f OR O_NONBLOCK)],
        flags := (flags st)(fd \<mapsto> f OR O_NONBLOCK)\<rparr>"
  by (simp add: setnonblocking_def fcntl_getfl_call_def fcntl_setfl_call_def logged_def
      setfl_keeps Let_def)

lemma setnonblocking_closed:
  "flags st fd = None \<Longrightarrow>
   setnonblocking fd st =
     st\<lparr>calls := calls st @ [Fcntl_getfl fd, Fcntl_setfl fd (- 1)], errno := EBADF\<rparr>"
  by (simp add: setnonblocking_def fcntl_getfl_call_def fcntl_setfl_call_def logged_def Let_def)

lemma setnonblocking_flags:
  "flags (setnonblocking fd st) = (flags st)(fd := map_option (\<lambda>f. f OR O_NONBLOCK) (flags st fd))"
  by (cases "flags st fd")
    (simp_all add: setnonblocking_open setnonblocking_closed fun_upd_idem)

lemma setnonblocking_frame:
  "interest (setnonblocking fd st) = interest st" "pair (setnonblocking fd st) = pair st"
  "bridge (setnonblocking fd st) = bridge st" "capacity (setnonblocking fd st) = capacity st"
  "handlers (setnonblocking fd st) = handlers st" "pipefd0 (setnonblocking fd st) = pipefd0 st"
  "pipefd1 (setnonblocking fd st) = pipefd1 st" "stop_server (setnonblocking fd st) = stop_server st"
  "stdout (setnonblocking fd st) = stdout st" "stderr (setnonblocking fd st) = stderr st"
  by (cases "flags st fd"; simp add: setnonblocking_open setnonblocking_closed)+

lemma setnonblocking_calls:
  "calls (setnonblocking fd st) =
     calls st @ [Fcntl_getfl fd,
                 Fcntl_setfl fd (case flags st fd of None \<Rightarrow> - 1 | Some f \<Rightarrow> f OR O_NONBLOCK)]"
  by (cases "flags st fd") (simp_all add: setnonblocking_open setnonblocking_closed)

subsection \<open>Registration\<close>

lemma epoll_ctl_add_frame:
  "flags (snd (epoll_ctl_add_call ep fd ev st)) = flags st"
  "pair (snd (epoll_ctl_add_call ep fd ev st)) = pair st"
  "bridge (snd (epoll_ctl_add_call ep fd ev st)) = bridge st"
  "capacity (snd (epoll_ctl_add_call ep fd ev st)) = capacity st"
  "handlers (snd (epoll_ctl_add_call ep fd ev st)) = handlers st"
  "pipefd0 (snd (epoll_ctl_add_call ep fd ev st)) = pipefd0 st"
  "pipefd1 (snd (epoll_ctl_add_call ep fd ev st)) = pipefd1 st"
  "stop_server (snd (epoll_ctl_add_call ep fd ev st)) = stop_server st"
  "stdout (snd (epoll_ctl_add_call ep fd ev st)) = stdout st"
  "stderr (snd (epoll_ctl_add_call ep fd ev st)) = stderr st"
  "calls (snd (epoll_ctl_add_call ep fd ev st)) = calls st @ [Epoll_ctl_add ep fd ev]"
  by (simp_all add: epoll_ctl_add_call_def logged_def Let_def)

lemma addfd_unfold:
  "addfd ep fd st =
     setnonblocking fd (snd (epoll_ctl_add_call ep fd (Epoll_event (EPOLLIN OR EPOLLET) fd) st))"
  by (simp add: addfd_def Let_def split: prod.split)

lemma addfd_flags:
  "flags (addfd ep fd st) = (flags st)(fd := map_option (\<lambda>f. f OR O_NONBLOCK) (flags st fd))"
  by (simp add: addfd_unfold setnonblocking_flags epoll_ctl_add_frame)

lemma addfd_frame:
  "pair (addfd ep fd st) = pair st" "bridge (addfd ep fd st) = bridge st"
  "capacity (addfd ep fd st) = capacity st" "handlers (addfd ep fd st) = handlers st"
  "pipefd0 (addfd ep fd st) = pipefd0 st" "pipefd1 (addfd ep fd st) = pipefd1 st"
  "stop_server (addfd ep fd st) = stop_server st"
  "stdout (addfd ep fd st) = stdout st" "stderr (addfd ep fd st) = stderr st"
  by (simp_all add: addfd_unfold setnonblocking_frame epoll_ctl_add_frame)

lemma addfd_calls:
  "calls (addfd ep fd st) =
     calls st @ [Epoll_ctl_add ep fd (Epoll_event (EPOLLIN OR EPOLLET) fd), Fcntl_getfl fd,
                 Fcntl_setfl fd (case flags st fd of None \<Rightarrow> - 1 | Some f \<Rightarrow> f OR O_NONBLOCK)]"
  by (simp add: addfd_unfold setnonblocking_calls epoll_ctl_add_frame)

lemma addfd_interest:
  "interest (addfd ep fd st) =
     (if flags st ep \<noteq> None \<and> flags st fd \<noteq> None \<and> fd \<noteq> ep \<and> interest st fd = None
      then (interest st)(fd \<mapsto> Epoll_event (EPOLLIN OR EPOLLET) fd) else interest st)"
  by (auto simp add: addfd_unfold setnonblocking_frame epoll_ctl_add_call_def logged_def Let_def)

lemma nonblocking_bridge_addfd:
  "nonblocking_bridge st \<Longrightarrow> nonblocking_bridge (addfd ep fd st)"
  by (auto simp: nonblocking_bridge_def addfd_frame addfd_flags nonblock_set split: option.splits)

subsection \<open>Signal bytes\<close>

lemma scast_byte: "scast (c :: byte) = (w :: cint) \<Longrightarrow> c = scast w"
proof -
  have "is_up (scast :: byte \<Rightarrow> cint)" by (simp add: is_up)
  then have "scast (scast c :: cint) = c" by (rule scast_up_scast_id)
  then show "scast c = w \<Longrightarrow> c = scast w" by simp
qed

lemma char_value_label:
  "char_value c = SIGCHLD \<longleftrightarrow> c = 17"
  "char_value c = SIGHUP \<longleftrightarrow> c = 1"
  "char_value c = SIGTERM \<longleftrightarrow> c = 15"
  "char_value c = SIGINT \<longleftrightarrow> c = 2"
  by (auto simp: char_value_def SIGCHLD_def SIGHUP_def SIGTERM_def SIGINT_def dest: scast_byte)

lemma low_byte_label:
  "(ucast SIGCHLD :: byte) = 17" "(ucast SIGHUP :: byte) = 1"
  "(ucast SIGTERM :: byte) = 15" "(ucast SIGINT :: byte) = 2"
  by (simp_all add: SIGCHLD_def SIGHUP_def SIGTERM_def SIGINT_def)

lemma switch_signals_all:
  "switch_signals cs st =
     st\<lparr>stop_server := stop_server st \<or> (\<exists>c \<in> set cs. c = ucast SIGTERM \<or> c = ucast SIGINT)\<rparr>"
  by (induction cs arbitrary: st) (auto simp: char_value_label low_byte_label)

lemma received_append: "received (xs @ ys) = received xs @ received ys"
  by (induction xs rule: received.induct) simp_all

subsection \<open>The handler\<close>

lemma sig_handler_sends:
  assumes "nonblocking_bridge st"
  shows "sig_handler sig st =
     Some (st\<lparr>calls := calls st @ [Send (pipefd1 st) [ucast sig]],
              bridge := (if length (bridge st) < capacity st then bridge st @ [ucast sig]
                         else bridge st)\<rparr>)"
  using assms
  by (auto simp: nonblocking_bridge_def sig_handler_def send_call_def first_object_byte logged_def
      Suc_le_eq Let_def split: option.splits)

lemma sig_handler_result:
  "sig_handler sig st = Some st' \<Longrightarrow>
   \<exists>bs. st' = st\<lparr>calls := calls st @ [Send (pipefd1 st) [ucast sig]], bridge := bs\<rparr>"
  by (auto simp: sig_handler_def send_call_def first_object_byte logged_def Let_def
      split: option.splits if_splits intro: exI [of _ "bridge st"])

lemma deliver_result:
  "deliver sig st = Some st' \<Longrightarrow>
   \<exists>bs new. st' = st\<lparr>calls := calls st @ new, bridge := bs\<rparr> \<and> received new = []"
proof (cases "sig \<in> set (handlers st)")
  case True
  assume "deliver sig st = Some st'"
  with True have "sig_handler sig st = Some st'" by (simp add: deliver_def)
  from sig_handler_result [OF this] obtain bs
    where "st' = st\<lparr>calls := calls st @ [Send (pipefd1 st) [ucast sig]], bridge := bs\<rparr>"
    by blast
  then show ?thesis by (intro exI [of _ bs] exI [of _ "[Send (pipefd1 st) [ucast sig]]"]) simp
next
  case False
  assume "deliver sig st = Some st'"
  with False have "st' = st\<lparr>calls := calls st @ [], bridge := bridge st\<rparr>" by (simp add: deliver_def)
  then show ?thesis by (intro exI [of _ "bridge st"] exI [of _ "[]"]) simp
qed

lemma deliver_all_result:
  "deliver_all sigs st = Some st' \<Longrightarrow>
   \<exists>bs new. st' = st\<lparr>calls := calls st @ new, bridge := bs\<rparr> \<and> received new = []"
proof (induction sigs arbitrary: st)
  case Nil
  then have "st' = st\<lparr>calls := calls st @ [], bridge := bridge st\<rparr>" by simp
  then show ?case by (intro exI [of _ "bridge st"] exI [of _ "[]"]) simp
next
  case (Cons sig sigs)
  then obtain st1 where d: "deliver sig st = Some st1" and r: "deliver_all sigs st1 = Some st'"
    by (auto split: option.splits)
  from deliver_result [OF d] obtain bs1 new1
    where s1: "st1 = st\<lparr>calls := calls st @ new1, bridge := bs1\<rparr>" and n1: "received new1 = []"
    by blast
  from Cons.IH [OF r] obtain bs2 new2
    where s2: "st' = st1\<lparr>calls := calls st1 @ new2, bridge := bs2\<rparr>" and n2: "received new2 = []"
    by blast
  have "st' = st\<lparr>calls := calls st @ (new1 @ new2), bridge := bs2\<rparr>" using s1 s2 by simp
  moreover have "received (new1 @ new2) = []" using n1 n2 by (simp add: received_append)
  ultimately show ?case by blast
qed

lemma nonblocking_bridge_frame:
  "nonblocking_bridge (st\<lparr>calls := cs\<rparr>) = nonblocking_bridge st"
  "nonblocking_bridge (st\<lparr>bridge := bs\<rparr>) = nonblocking_bridge st"
  "nonblocking_bridge (st\<lparr>errno := e\<rparr>) = nonblocking_bridge st"
  "nonblocking_bridge (st\<lparr>stop_server := b\<rparr>) = nonblocking_bridge st"
  "nonblocking_bridge (st\<lparr>stdout := out\<rparr>) = nonblocking_bridge st"
  by (simp_all add: nonblocking_bridge_def)

lemma deliver_all_total:
  "nonblocking_bridge st \<Longrightarrow> \<exists>st'. deliver_all sigs st = Some st' \<and> nonblocking_bridge st'"
proof (induction sigs arbitrary: st)
  case Nil
  then show ?case by simp
next
  case (Cons sig sigs)
  have "\<exists>st1. deliver sig st = Some st1 \<and> nonblocking_bridge st1"
    using Cons.prems by (simp add: deliver_def sig_handler_sends nonblocking_bridge_frame)
  then obtain st1 where "deliver sig st = Some st1" "nonblocking_bridge st1" by blast
  with Cons.IH [of st1] show ?case by simp
qed

subsection \<open>One ready descriptor\<close>

lemma ready_event_listen:
  "data_fd (event r) = listenfd \<Longrightarrow>
   ready_event epollfd listenfd r st =
     Some (addfd epollfd (fst (accept_call listenfd (conn r) st))
                         (snd (accept_call listenfd (conn r) st)))"
  by (simp add: ready_event_def split: prod.split)

lemma accept_call_frame:
  "stop_server (snd (accept_call fd r st)) = stop_server st"
  "calls (snd (accept_call fd r st)) = calls st @ [Accept fd]"
  "pair (snd (accept_call fd r st)) = pair st"
  "pipefd0 (snd (accept_call fd r st)) = pipefd0 st"
  "pipefd1 (snd (accept_call fd r st)) = pipefd1 st"
  "bridge (snd (accept_call fd r st)) = bridge st"
  "capacity (snd (accept_call fd r st)) = capacity st"
  "interest (snd (accept_call fd r st)) = interest st"
  "stdout (snd (accept_call fd r st)) = stdout st"
  "stderr (snd (accept_call fd r st)) = stderr st"
  by (cases r; simp add: accept_call_def logged_def)+

lemma accept_call_flags:
  "flags (snd (accept_call fd r st)) =
     (case r of Fails e \<Rightarrow> flags st | Returns c \<Rightarrow> (flags st)(c \<mapsto> O_RDWR))"
  by (cases r; simp add: accept_call_def logged_def)

lemma accept_call_value:
  "fst (accept_call fd r st) = (case r of Fails e \<Rightarrow> - 1 | Returns c \<Rightarrow> c)"
  by (cases r; simp add: accept_call_def logged_def)

lemma take_min_length: "take (min (length xs) n) xs = take n xs"
  by (simp add: min_def)

lemma ready_event_bridge:
  assumes "data_fd (event r) \<noteq> listenfd" and "data_fd (event r) = pipefd0 st"
    and "events (event r) AND EPOLLIN \<noteq> 0" and "nonblocking_bridge st"
  shows "ready_event epollfd listenfd r st =
     Some (if bridge st = []
           then st\<lparr>calls := calls st @ [Recv (pipefd0 st) 1024 []], errno := EAGAIN\<rparr>
           else switch_signals (take 1024 (bridge st))
                  (st\<lparr>calls := calls st @ [Recv (pipefd0 st) 1024 (take 1024 (bridge st))],
                      bridge := drop 1024 (bridge st)\<rparr>))"
  using assms
  by (auto simp: ready_event_def recv_call_def nonblocking_bridge_def logged_def Let_def
      take_min_length split: option.splits)

lemma ready_event_other:
  "data_fd (event r) \<noteq> listenfd \<Longrightarrow>
   \<not> (data_fd (event r) = pipefd0 st \<and> events (event r) AND EPOLLIN \<noteq> 0) \<Longrightarrow>
   ready_event epollfd listenfd r st = Some st"
  by (auto simp: ready_event_def)

text \<open>What one entry adds to the log, and what it does to the flag.\<close>

lemma ready_event_log:
  assumes "ready_event epollfd listenfd r st = Some st'"
  shows "\<exists>new. calls st' = calls st @ new \<and>
     (stop_server st' \<longleftrightarrow>
        stop_server st \<or> (\<exists>t \<in> set (received new). t = ucast SIGTERM \<or> t = ucast SIGINT))"
proof (cases "data_fd (event r) = listenfd")
  case True
  with assms have "st' = addfd epollfd (fst (accept_call listenfd (conn r) st))
      (snd (accept_call listenfd (conn r) st))"
    by (simp add: ready_event_listen)
  then show ?thesis
    by (simp add: addfd_calls addfd_frame accept_call_frame)
next
  case False
  show ?thesis
  proof (cases "data_fd (event r) = pipefd0 st \<and> events (event r) AND EPOLLIN \<noteq> 0")
    case no: False
    with False assms have "st' = st" by (simp add: ready_event_other)
    then show ?thesis by simp
  next
    case True
    with False assms obtain ret signals st1
      where rc: "recv_call (pipefd0 st) 1024 st = Some (ret, signals, st1)"
        and st': "st' = (if ret = - 1 then st1 else switch_signals (take (nat ret) signals) st1)"
      by (auto simp: ready_event_def split: option.splits if_splits)
    from rc have "(ret = - 1 \<and> calls st1 = calls st @ [Recv (pipefd0 st) 1024 []]
          \<and> stop_server st1 = stop_server st)
        \<or> (ret \<noteq> - 1 \<and> calls st1 = calls st @ [Recv (pipefd0 st) 1024 signals]
          \<and> take (nat ret) signals = signals \<and> stop_server st1 = stop_server st)"
      by (auto simp: recv_call_def logged_def Let_def split: option.splits if_splits)
    then show ?thesis
      using st' by (auto simp: switch_signals_all)
  qed
qed

subsection \<open>A batch of ready descriptors\<close>

lemma ready_events_append:
  "ready_events epollfd listenfd (rs1 @ rs2) st =
     (case ready_events epollfd listenfd rs1 st of
        None \<Rightarrow> None
      | Some st1 \<Rightarrow> ready_events epollfd listenfd rs2 st1)"
  by (induction rs1 arbitrary: st) (simp_all split: option.split)

lemma ready_events_log:
  "ready_events epollfd listenfd rs st = Some st' \<Longrightarrow>
   \<exists>new. calls st' = calls st @ new \<and>
     (stop_server st' \<longleftrightarrow>
        stop_server st \<or> (\<exists>t \<in> set (received new). t = ucast SIGTERM \<or> t = ucast SIGINT))"
proof (induction rs arbitrary: st)
  case Nil
  then have "calls st' = calls st @ []" "stop_server st' = stop_server st" by simp_all
  then show ?case by (intro exI [of _ "[]"]) simp
next
  case (Cons r rs)
  then obtain st1 where e: "ready_event epollfd listenfd r st = Some st1"
    and rest: "ready_events epollfd listenfd rs st1 = Some st'"
    by (auto split: option.splits)
  from ready_event_log [OF e] obtain new1 where c1: "calls st1 = calls st @ new1"
    and f1: "stop_server st1 \<longleftrightarrow>
      stop_server st \<or> (\<exists>t \<in> set (received new1). t = ucast SIGTERM \<or> t = ucast SIGINT)"
    by blast
  from Cons.IH [OF rest] obtain new2 where c2: "calls st' = calls st1 @ new2"
    and f2: "stop_server st' \<longleftrightarrow>
      stop_server st1 \<or> (\<exists>t \<in> set (received new2). t = ucast SIGTERM \<or> t = ucast SIGINT)"
    by blast
  have "calls st' = calls st @ (new1 @ new2)" using c1 c2 by simp
  moreover have "stop_server st' \<longleftrightarrow> stop_server st
      \<or> (\<exists>t \<in> set (received (new1 @ new2)). t = ucast SIGTERM \<or> t = ucast SIGINT)"
    using f1 f2 by (auto simp: received_append)
  ultimately show ?case by blast
qed

subsection \<open>One round of the loop\<close>

lemma epoll_wait_call_log:
  assumes "epoll_wait_call epollfd n s st = Some (number, evs, st1)"
  shows "\<exists>new. calls st1 = calls st @ new \<and> received new = [] \<and> stop_server st1 = stop_server st"
proof -
  from assms obtain st0
    where d: "deliver_all (arrivals s) (logged (Epoll_wait epollfd) st) = Some st0"
      and s1: "st1 = st0 \<or> (\<exists>e. st1 = st0\<lparr>errno := e\<rparr>)"
    by (auto simp: epoll_wait_call_def split: option.splits wait_result.splits)
  from deliver_all_result [OF d] obtain bs new
    where "st0 = (logged (Epoll_wait epollfd) st)
        \<lparr>calls := calls (logged (Epoll_wait epollfd) st) @ new, bridge := bs\<rparr>"
      and "received new = []"
    by blast
  then have "calls st0 = calls st @ (Epoll_wait epollfd # new)"
    and "received (Epoll_wait epollfd # new) = []" and "stop_server st0 = stop_server st"
    by (simp_all add: logged_def)
  with s1 show ?thesis by (intro exI [of _ "Epoll_wait epollfd # new"]) auto
qed

lemma loop_body_log:
  assumes "loop_body epollfd listenfd s st = Continue st'"
  shows "\<exists>new. calls st' = calls st @ new \<and>
     (stop_server st' \<longleftrightarrow>
        stop_server st \<or> (\<exists>t \<in> set (received new). t = ucast SIGTERM \<or> t = ucast SIGINT))"
proof -
  from assms obtain number evs st1
    where w: "epoll_wait_call epollfd MAX_EVENT_NUMBER s st = Some (number, evs, st1)"
      and b: "ready_events epollfd listenfd (take (nat number) evs) st1 = Some st'"
    by (auto simp: loop_body_def split: option.splits if_splits)
  from epoll_wait_call_log [OF w] obtain new1 where c1: "calls st1 = calls st @ new1"
    and r1: "received new1 = []" and f1: "stop_server st1 = stop_server st"
    by blast
  from ready_events_log [OF b] obtain new2 where c2: "calls st' = calls st1 @ new2"
    and f2: "stop_server st' \<longleftrightarrow>
      stop_server st1 \<or> (\<exists>t \<in> set (received new2). t = ucast SIGTERM \<or> t = ucast SIGINT)"
    by blast
  have "calls st' = calls st @ (new1 @ new2)" using c1 c2 by simp
  moreover have "stop_server st' \<longleftrightarrow> stop_server st
      \<or> (\<exists>t \<in> set (received (new1 @ new2)). t = ucast SIGTERM \<or> t = ucast SIGINT)"
    using f1 f2 r1 by (simp add: received_append)
  ultimately show ?thesis by blast
qed

lemma event_loop_stopped:
  "stop_server st \<Longrightarrow> event_loop epollfd listenfd ss st = Inr (st, ss)"
  by (cases ss) simp_all

text \<open>
  With both ends of the pair nonblocking no call of the loop blocks: every round of the
  loop ends, and leaves the two ends nonblocking.
\<close>

lemma nonblocking_bridge_accept:
  "nonblocking_bridge st \<Longrightarrow>
   nonblocking_bridge (addfd ep (fst (accept_call fd r st)) (snd (accept_call fd r st)))"
  by (cases r)
    (auto simp: nonblocking_bridge_def addfd_frame addfd_flags accept_call_def logged_def
      nonblock_set split: option.splits)

lemma nonblocking_bridge_switch:
  "nonblocking_bridge (switch_signals cs st) = nonblocking_bridge st"
  by (simp add: switch_signals_all nonblocking_bridge_frame)

lemma ready_event_total:
  assumes "nonblocking_bridge st"
  shows "\<exists>st'. ready_event epollfd listenfd r st = Some st' \<and> nonblocking_bridge st'"
proof (cases "data_fd (event r) = listenfd")
  case True
  then show ?thesis
    using assms by (simp add: ready_event_listen nonblocking_bridge_accept)
next
  case False
  show ?thesis
  proof (cases "data_fd (event r) = pipefd0 st \<and> events (event r) AND EPOLLIN \<noteq> 0")
    case True
    with False assms show ?thesis
      by (simp add: ready_event_bridge nonblocking_bridge_frame nonblocking_bridge_switch)
  next
    case False
    with \<open>data_fd (event r) \<noteq> listenfd\<close> assms show ?thesis
      by (simp add: ready_event_other)
  qed
qed

lemma ready_events_total:
  "nonblocking_bridge st \<Longrightarrow>
   \<exists>st'. ready_events epollfd listenfd rs st = Some st' \<and> nonblocking_bridge st'"
proof (induction rs arbitrary: st)
  case Nil
  then show ?case by simp
next
  case (Cons r rs)
  from ready_event_total [OF Cons.prems] obtain st1
    where "ready_event epollfd listenfd r st = Some st1" "nonblocking_bridge st1"
    by blast
  with Cons.IH [of st1] show ?case by simp
qed

lemma loop_body_total:
  assumes "nonblocking_bridge st"
  shows "\<exists>st'. (loop_body epollfd listenfd s st = Continue st'
               \<or> loop_body epollfd listenfd s st = Break st') \<and> nonblocking_bridge st'"
proof -
  have "nonblocking_bridge (logged (Epoll_wait epollfd) st)"
    using assms by (simp add: logged_def nonblocking_bridge_frame)
  from deliver_all_total [OF this] obtain st1
    where d: "deliver_all (arrivals s) (logged (Epoll_wait epollfd) st) = Some st1"
      and n: "nonblocking_bridge st1"
    by blast
  show ?thesis
  proof (cases "result s")
    case (Wait_failed e)
    with d n show ?thesis
      by (simp add: loop_body_def epoll_wait_call_def printf_def nonblocking_bridge_frame)
  next
    case (Wait_ready evs)
    from ready_events_total [OF n] obtain st2
      where "ready_events epollfd listenfd (take MAX_EVENT_NUMBER evs) st1 = Some st2"
        "nonblocking_bridge st2"
      by blast
    with d Wait_ready show ?thesis
      by (simp add: loop_body_def epoll_wait_call_def take_min_length)
  qed
qed

lemma event_loop_total:
  "nonblocking_bridge st \<Longrightarrow> event_loop epollfd listenfd steps st \<noteq> Inl Stuck"
proof (induction steps arbitrary: st)
  case Nil
  then show ?case by simp
next
  case (Cons s ss)
  from loop_body_total [OF Cons.prems] obtain st1
    where "loop_body epollfd listenfd s st = Continue st1
         \<or> loop_body epollfd listenfd s st = Break st1" "nonblocking_bridge st1"
    by blast
  with Cons.IH [of st1] show ?case by auto
qed

text \<open>
  The queue of the pair never holds more than its room, which no call changes.
\<close>

lemma deliver_all_within:
  assumes "nonblocking_bridge st" and "length (bridge st) \<le> capacity st"
  shows "\<exists>st'. deliver_all sigs st = Some st' \<and> nonblocking_bridge st'
     \<and> length (bridge st') \<le> capacity st' \<and> capacity st' = capacity st"
  using assms
proof (induction sigs arbitrary: st)
  case Nil
  then show ?case by simp
next
  case (Cons sig sigs)
  have "\<exists>st1. deliver sig st = Some st1 \<and> nonblocking_bridge st1
      \<and> length (bridge st1) \<le> capacity st1 \<and> capacity st1 = capacity st"
    using Cons.prems by (simp add: deliver_def sig_handler_sends nonblocking_bridge_frame)
  then obtain st1 where "deliver sig st = Some st1" "nonblocking_bridge st1"
    "length (bridge st1) \<le> capacity st1" "capacity st1 = capacity st"
    by blast
  with Cons.IH [of st1] show ?case by simp
qed

lemma ready_event_within:
  assumes "nonblocking_bridge st" and "length (bridge st) \<le> capacity st"
  shows "\<exists>st'. ready_event epollfd listenfd r st = Some st' \<and> nonblocking_bridge st'
     \<and> length (bridge st') \<le> capacity st' \<and> capacity st' = capacity st"
proof (cases "data_fd (event r) = listenfd")
  case True
  then show ?thesis
    using assms
    by (simp add: ready_event_listen nonblocking_bridge_accept addfd_frame accept_call_frame)
next
  case False
  show ?thesis
  proof (cases "data_fd (event r) = pipefd0 st \<and> events (event r) AND EPOLLIN \<noteq> 0")
    case True
    with False assms show ?thesis
      by (auto simp: ready_event_bridge nonblocking_bridge_frame nonblocking_bridge_switch
          switch_signals_all)
  next
    case False
    with \<open>data_fd (event r) \<noteq> listenfd\<close> assms show ?thesis
      by (simp add: ready_event_other)
  qed
qed

lemma ready_events_within:
  "nonblocking_bridge st \<Longrightarrow> length (bridge st) \<le> capacity st \<Longrightarrow>
   \<exists>st'. ready_events epollfd listenfd rs st = Some st' \<and> nonblocking_bridge st'
     \<and> length (bridge st') \<le> capacity st' \<and> capacity st' = capacity st"
proof (induction rs arbitrary: st)
  case Nil
  then show ?case by simp
next
  case (Cons r rs)
  from ready_event_within [OF Cons.prems] obtain st1
    where "ready_event epollfd listenfd r st = Some st1" "nonblocking_bridge st1"
      "length (bridge st1) \<le> capacity st1" "capacity st1 = capacity st"
    by blast
  with Cons.IH [of st1] show ?case by simp
qed

lemma loop_body_within:
  assumes "nonblocking_bridge st" and "length (bridge st) \<le> capacity st"
  shows "\<exists>st'. (loop_body epollfd listenfd s st = Continue st'
               \<or> loop_body epollfd listenfd s st = Break st')
     \<and> nonblocking_bridge st' \<and> length (bridge st') \<le> capacity st'
     \<and> capacity st' = capacity st"
proof -
  have "nonblocking_bridge (logged (Epoll_wait epollfd) st)"
    "length (bridge (logged (Epoll_wait epollfd) st)) \<le> capacity (logged (Epoll_wait epollfd) st)"
    using assms by (simp_all add: logged_def nonblocking_bridge_frame)
  from deliver_all_within [OF this, of "arrivals s"] obtain st1
    where d: "deliver_all (arrivals s) (logged (Epoll_wait epollfd) st) = Some st1"
      and n: "nonblocking_bridge st1" "length (bridge st1) \<le> capacity st1"
      and c0: "capacity st1 = capacity (logged (Epoll_wait epollfd) st)"
    by blast
  have c: "capacity st1 = capacity st"
    using c0 by (simp add: logged_def)
  show ?thesis
  proof (cases "result s")
    case (Wait_failed e)
    with d n c show ?thesis
      by (simp add: loop_body_def epoll_wait_call_def printf_def nonblocking_bridge_frame)
  next
    case (Wait_ready evs)
    from ready_events_within [OF n] obtain st2
      where "ready_events epollfd listenfd (take MAX_EVENT_NUMBER evs) st1 = Some st2"
        "nonblocking_bridge st2" "length (bridge st2) \<le> capacity st2"
        "capacity st2 = capacity st1"
      by blast
    with d c Wait_ready show ?thesis
      by (simp add: loop_body_def epoll_wait_call_def take_min_length)
  qed
qed

text \<open>
  C1. Take a round of the loop that starts with the flag clear and runs to its end, and
  let a byte equal to SIGTERM or SIGINT be among the bytes its \<open>recv\<close> calls handed to the
  program. Then the flag is set when the round ends, and the loop is left at the next
  test of \<open>while(!stop_server)\<close>: in the state the round ended in, with nothing more
  called and none of the later steps looked at.
\<close>

theorem stop_after_terminating_byte:
  assumes "\<not> stop_server st"
    and "loop_body epollfd listenfd s st = Continue st'"
    and "calls st' = calls st @ new"
    and "t \<in> set (received new)"
    and "t = ucast SIGTERM \<or> t = ucast SIGINT"
  shows "stop_server st' \<and> event_loop epollfd listenfd (s # ss) st = Inr (st', ss)"
proof -
  from loop_body_log [OF assms(2)] obtain new' where c: "calls st' = calls st @ new'"
    and f: "stop_server st' \<longleftrightarrow>
      stop_server st \<or> (\<exists>t \<in> set (received new'). t = ucast SIGTERM \<or> t = ucast SIGINT)"
    by blast
  from c assms(3) have "new' = new" by simp
  with f assms(4,5) have stop: "stop_server st'" by blast
  then have "event_loop epollfd listenfd ss st' = Inr (st', ss)" by (rule event_loop_stopped)
  with assms(1,2) stop show ?thesis by simp
qed

theorem stop_after_terminating_byte_witness:
  "stop_server
     (example_ready\<lparr>stop_server := True,
        calls := calls example_ready @ [Epoll_wait 4, Send 6 [1], Send 6 [15], Recv 5 1024 [1, 15]]\<rparr>)
   \<and> event_loop 4 3
       [Step [SIGHUP, SIGTERM] (Wait_ready [Ready (Epoll_event EPOLLIN 5) (Fails EAGAIN)]),
        Step [] (Wait_ready [Ready (Epoll_event EPOLLIN 3) (Returns 7)])]
       example_ready =
     Inr (example_ready\<lparr>stop_server := True,
            calls := calls example_ready @ [Epoll_wait 4, Send 6 [1], Send 6 [15], Recv 5 1024 [1, 15]]\<rparr>,
          [Step [] (Wait_ready [Ready (Epoll_event EPOLLIN 3) (Returns 7)])])"
proof -
  have 1: "\<not> stop_server example_ready"
    by (simp add: example_ready_def)
  have 2: "loop_body 4 3
        (Step [SIGHUP, SIGTERM] (Wait_ready [Ready (Epoll_event EPOLLIN 5) (Fails EAGAIN)]))
        example_ready =
      Continue (example_ready\<lparr>stop_server := True,
        calls := calls example_ready @ [Epoll_wait 4, Send 6 [1], Send 6 [15], Recv 5 1024 [1, 15]]\<rparr>)"
    by (simp add: example_ready_def header_defs call_defs program_defs first_object_byte
        cong: let_weak_cong prod.case_cong_weak)
  have 3: "calls (example_ready\<lparr>stop_server := True,
        calls := calls example_ready @ [Epoll_wait 4, Send 6 [1], Send 6 [15], Recv 5 1024 [1, 15]]\<rparr>) =
      calls example_ready @ [Epoll_wait 4, Send 6 [1], Send 6 [15], Recv 5 1024 [1, 15]]"
    by simp
  have 4: "15 \<in> set (received [Epoll_wait 4, Send 6 [1], Send 6 [15], Recv 5 1024 [1, 15]])"
    by simp
  have 5: "(15 :: byte) = ucast SIGTERM \<or> (15 :: byte) = ucast SIGINT"
    by (simp add: low_byte_label)
  show ?thesis
    by (rule stop_after_terminating_byte [OF 1 2 3 4 5])
qed

subsection \<open>The claims about signal bytes and the bridge\<close>

text \<open>
  C4. The \<open>switch\<close> on a received byte sets \<open>stop_server\<close> exactly when the byte is
  the number of SIGTERM or of SIGINT; on SIGCHLD, SIGHUP and every other value it leaves
  the whole state as it was. Either way the \<open>for\<close> loop goes on with the next byte. So
  over all the bytes of one \<open>recv\<close> the flag is set exactly when it was set before or one
  of them is the number of SIGTERM or of SIGINT, and nothing else changes.
\<close>

theorem switch_signals_byte:
  "switch_signals (c # cs) st =
     switch_signals cs
       (if c = ucast SIGTERM \<or> c = ucast SIGINT then st\<lparr>stop_server := True\<rparr> else st)
   \<and> switch_signals cs st =
     st\<lparr>stop_server := stop_server st \<or> (\<exists>c \<in> set cs. c = ucast SIGTERM \<or> c = ucast SIGINT)\<rparr>"
  using switch_signals_all [of cs st] by (simp add: char_value_label low_byte_label)

theorem switch_signals_byte_witness:
  "switch_signals [17, 1, 99, 2, 17] example_ready = example_ready\<lparr>stop_server := True\<rparr>
   \<and> switch_signals [17, 1, 99] example_ready = example_ready"
  using switch_signals_byte [of 17 "[1, 99, 2, 17]" example_ready]
    switch_signals_byte [of 17 "[1, 99]" example_ready]
  by (simp add: char_value_label low_byte_label)

text \<open>
  C3. Where both ends of the pair are nonblocking (as \<open>main\<close> leaves them), the handler
  returns, and its whole effect is one \<open>send\<close> of the low byte of the signal number to
  \<open>pipefd[1]\<close>: the byte joins the queue when there is room and is dropped when there is
  none. Everything else, \<open>errno\<close> and \<open>stop_server\<close> included, is as before.
\<close>

theorem sig_handler_effect:
  assumes "nonblocking_bridge st"
  shows "sig_handler sig st =
     Some (st\<lparr>calls := calls st @ [Send (pipefd1 st) [ucast sig]],
              bridge := (if length (bridge st) < capacity st then bridge st @ [ucast sig]
                         else bridge st)\<rparr>)"
  using assms by (rule sig_handler_sends)

lemma example_ready_nonblocking: "nonblocking_bridge example_ready"
  by (simp add: nonblocking_bridge_def example_ready_def O_NONBLOCK_def)

theorem sig_handler_effect_witness:
  "sig_handler SIGINT (example_ready\<lparr>errno := EINTR\<rparr>) =
     Some (example_ready\<lparr>errno := EINTR, calls := calls example_ready @ [Send 6 [2]], bridge := [2]\<rparr>)
   \<and> sig_handler SIGINT (example_ready\<lparr>capacity := 0\<rparr>) =
     Some (example_ready\<lparr>capacity := 0, calls := calls example_ready @ [Send 6 [2]]\<rparr>)"
proof -
  have 1: "nonblocking_bridge (example_ready\<lparr>errno := EINTR\<rparr>)"
    by (simp add: nonblocking_bridge_frame example_ready_nonblocking)
  have 2: "nonblocking_bridge (example_ready\<lparr>capacity := 0\<rparr>)"
    using example_ready_nonblocking by (simp add: nonblocking_bridge_def)
  show ?thesis
    using sig_handler_effect [OF 1, of SIGINT] sig_handler_effect [OF 2, of SIGINT]
    by (simp add: example_ready_def SIGINT_def)
qed

lemma deliver_all_sends:
  assumes "nonblocking_bridge st" and "set sigs \<subseteq> set (handlers st)"
    and "length (bridge st) + length sigs \<le> capacity st"
  shows "deliver_all sigs st =
     Some (st\<lparr>calls := calls st @ map (\<lambda>sig. Send (pipefd1 st) [ucast sig]) sigs,
              bridge := bridge st @ map ucast sigs\<rparr>)"
  using assms
proof (induction sigs arbitrary: st)
  case Nil
  then show ?case by simp
next
  case (Cons sig sigs)
  let ?st1 = "st\<lparr>calls := calls st @ [Send (pipefd1 st) [ucast sig]],
                  bridge := bridge st @ [ucast sig]\<rparr>"
  have d: "deliver sig st = Some ?st1"
    using Cons.prems by (simp add: deliver_def sig_handler_sends)
  have "nonblocking_bridge ?st1" using Cons.prems(1) by (simp add: nonblocking_bridge_def)
  moreover have "set sigs \<subseteq> set (handlers ?st1)" using Cons.prems(2) by simp
  moreover have "length (bridge ?st1) + length sigs \<le> capacity ?st1" using Cons.prems(3) by simp
  ultimately have "deliver_all sigs ?st1 =
     Some (?st1\<lparr>calls := calls ?st1 @ map (\<lambda>sig. Send (pipefd1 ?st1) [ucast sig]) sigs,
              bridge := bridge ?st1 @ map ucast sigs\<rparr>)"
    by (rule Cons.IH)
  with d show ?case by simp
qed



subsection \<open>The claims about descriptors\<close>

text \<open>
  C8, as the code has it. On an open descriptor \<open>setnonblocking\<close> sets \<open>O_NONBLOCK\<close>
  and keeps every other flag. On a descriptor that is not open both \<open>fcntl\<close> calls fail
  and the function returns all the same: the one trace of the failure is \<open>errno\<close>, which
  no caller reads.
\<close>

theorem setnonblocking_effect:
  "setnonblocking fd st =
     (case flags st fd of
        Some f \<Rightarrow> st\<lparr>calls := calls st @ [Fcntl_getfl fd, Fcntl_setfl fd (f OR O_NONBLOCK)],
                     flags := (flags st)(fd \<mapsto> f OR O_NONBLOCK)\<rparr>
      | None \<Rightarrow> st\<lparr>calls := calls st @ [Fcntl_getfl fd, Fcntl_setfl fd (- 1)], errno := EBADF\<rparr>)"
  by (simp add: setnonblocking_open setnonblocking_closed split: option.split)

theorem setnonblocking_effect_witness:
  "setnonblocking 4 example_ready =
     example_ready\<lparr>calls := calls example_ready @ [Fcntl_getfl 4, Fcntl_setfl 4 2050],
       flags := (flags example_ready)(4 \<mapsto> 2050)\<rparr>
   \<and> setnonblocking 9 example_ready =
     example_ready\<lparr>calls := calls example_ready @ [Fcntl_getfl 9, Fcntl_setfl 9 (- 1)], errno := 9\<rparr>"
  using setnonblocking_effect [of 4 example_ready] setnonblocking_effect [of 9 example_ready]
  by (simp add: example_ready_def O_NONBLOCK_def EBADF_def)

text \<open>
  C8 fails as stated. \<open>accept\<close> fails, so \<open>addfd\<close> hands \<open>-1\<close> to \<open>setnonblocking\<close>:
  both \<open>fcntl\<close> calls fail there, nothing reports it, and the process goes on to serve
  the next calls of \<open>epoll_wait\<close> and to exit with status 0 and nothing on either
  stream but \<open>close fds\<close>.
\<close>

theorem setnonblocking_effect_counterexample:
  "fst (fcntl_getfl_call (- 1) example_ready) = - 1
   \<and> fst (fcntl_setfl_call (- 1) (- 1) example_ready) = - 1
   \<and> exit_status (server_main example_boot
        [Step [] (Wait_ready [Ready (Epoll_event EPOLLIN 3) (Fails EAGAIN)]),
         Step [SIGINT] (Wait_failed EINTR),
         Step [] (Wait_ready [Ready (Epoll_event EPOLLIN 5) (Fails EAGAIN)])]) = Some 0
   \<and> map_option calls (last_state (server_main example_boot
        [Step [] (Wait_ready [Ready (Epoll_event EPOLLIN 3) (Fails EAGAIN)]),
         Step [SIGINT] (Wait_failed EINTR),
         Step [] (Wait_ready [Ready (Epoll_event EPOLLIN 5) (Fails EAGAIN)])])) =
     Some (calls example_ready @
       [Epoll_wait 4, Accept 3, Epoll_ctl_add 4 (- 1) (Epoll_event 2147483649 (- 1)),
        Fcntl_getfl (- 1), Fcntl_setfl (- 1) (- 1),
        Epoll_wait 4, Send 6 [2], Epoll_wait 4, Recv 5 1024 [2], Close 3, Close 6, Close 5])
   \<and> map_option stdout (last_state (server_main example_boot
        [Step [] (Wait_ready [Ready (Epoll_event EPOLLIN 3) (Fails EAGAIN)]),
         Step [SIGINT] (Wait_failed EINTR),
         Step [] (Wait_ready [Ready (Epoll_event EPOLLIN 5) (Fails EAGAIN)])])) =
     Some [Close_fds]
   \<and> map_option stderr (last_state (server_main example_boot
        [Step [] (Wait_ready [Ready (Epoll_event EPOLLIN 3) (Fails EAGAIN)]),
         Step [SIGINT] (Wait_failed EINTR),
         Step [] (Wait_ready [Ready (Epoll_event EPOLLIN 5) (Fails EAGAIN)])])) =
     Some []"
proof -
  have "\<exists>st. server_main example_boot
          [Step [] (Wait_ready [Ready (Epoll_event EPOLLIN 3) (Fails EAGAIN)]),
           Step [SIGINT] (Wait_failed EINTR),
           Step [] (Wait_ready [Ready (Epoll_event EPOLLIN 5) (Fails EAGAIN)])] =
        Exited 0 st
      \<and> calls st = calls example_ready @
       [Epoll_wait 4, Accept 3, Epoll_ctl_add 4 (- 1) (Epoll_event 2147483649 (- 1)),
        Fcntl_getfl (- 1), Fcntl_setfl (- 1) (- 1),
        Epoll_wait 4, Send 6 [2], Epoll_wait 4, Recv 5 1024 [2], Close 3, Close 6, Close 5]"
    by (simp add: example_boot_def example_ready_def header_defs call_defs program_defs
        first_object_byte cong: let_weak_cong prod.case_cong_weak)
  moreover have "\<exists>st. server_main example_boot
          [Step [] (Wait_ready [Ready (Epoll_event EPOLLIN 3) (Fails EAGAIN)]),
           Step [SIGINT] (Wait_failed EINTR),
           Step [] (Wait_ready [Ready (Epoll_event EPOLLIN 5) (Fails EAGAIN)])] =
        Exited 0 st
      \<and> stdout st = [Close_fds] \<and> stderr st = []"
    by (simp add: example_boot_def example_ready_def header_defs call_defs program_defs
        first_object_byte cong: let_weak_cong prod.case_cong_weak)
  moreover have "fst (fcntl_getfl_call (- 1) example_ready) = - 1"
    "fst (fcntl_setfl_call (- 1) (- 1) example_ready) = - 1"
    by (simp_all add: fcntl_getfl_call_def fcntl_setfl_call_def example_ready_def)
  ultimately show ?thesis by auto
qed

text \<open>
  C7. For a ready entry of the listening descriptor the loop calls \<open>accept\<close> once. When
  it returns a fresh descriptor, that descriptor is registered for \<open>EPOLLIN|EPOLLET\<close>
  and made nonblocking. When it fails, \<open>addfd\<close> is still called on \<open>-1\<close>, where
  \<open>epoll_ctl\<close> and both \<open>fcntl\<close> calls fail: no registration and no flag changes, only
  \<open>errno\<close> does, and the \<open>for\<close> loop goes on with the next entry.
\<close>

theorem accept_once:
  assumes "data_fd (event r) = listenfd"
  shows "(\<forall>c. conn r = Returns c \<and> flags st epollfd \<noteq> None \<and> flags st c = None
            \<and> interest st c = None \<longrightarrow>
          ready_event epollfd listenfd r st =
            Some (st\<lparr>calls := calls st @
                      [Accept listenfd,
                       Epoll_ctl_add epollfd c (Epoll_event (EPOLLIN OR EPOLLET) c),
                       Fcntl_getfl c, Fcntl_setfl c (O_RDWR OR O_NONBLOCK)],
                     flags := (flags st)(c \<mapsto> O_RDWR OR O_NONBLOCK),
                     interest := (interest st)(c \<mapsto> Epoll_event (EPOLLIN OR EPOLLET) c)\<rparr>))
     \<and> (\<forall>e. conn r = Fails e \<and> flags st (- 1) = None \<longrightarrow>
          ready_event epollfd listenfd r st =
            Some (st\<lparr>calls := calls st @
                      [Accept listenfd,
                       Epoll_ctl_add epollfd (- 1) (Epoll_event (EPOLLIN OR EPOLLET) (- 1)),
                       Fcntl_getfl (- 1), Fcntl_setfl (- 1) (- 1)],
                     errno := EBADF\<rparr>)
          \<and> ready_events epollfd listenfd (r # rs) st =
            ready_events epollfd listenfd rs
              (st\<lparr>calls := calls st @
                      [Accept listenfd,
                       Epoll_ctl_add epollfd (- 1) (Epoll_event (EPOLLIN OR EPOLLET) (- 1)),
                       Fcntl_getfl (- 1), Fcntl_setfl (- 1) (- 1)],
                     errno := EBADF\<rparr>))"
proof (intro conjI allI impI)
  fix c
  assume a: "conn r = Returns c \<and> flags st epollfd \<noteq> None \<and> flags st c = None \<and> interest st c = None"
  then have "c \<noteq> epollfd" by auto
  with a assms show "ready_event epollfd listenfd r st =
      Some (st\<lparr>calls := calls st @
                [Accept listenfd, Epoll_ctl_add epollfd c (Epoll_event (EPOLLIN OR EPOLLET) c),
                 Fcntl_getfl c, Fcntl_setfl c (O_RDWR OR O_NONBLOCK)],
               flags := (flags st)(c \<mapsto> O_RDWR OR O_NONBLOCK),
               interest := (interest st)(c \<mapsto> Epoll_event (EPOLLIN OR EPOLLET) c)\<rparr>)"
    by (auto simp: ready_event_def accept_call_def addfd_def epoll_ctl_add_call_def logged_def
        Let_def setnonblocking_open)
next
  fix e
  assume a: "conn r = Fails e \<and> flags st (- 1) = None"
  with assms show f: "ready_event epollfd listenfd r st =
      Some (st\<lparr>calls := calls st @
                [Accept listenfd,
                 Epoll_ctl_add epollfd (- 1) (Epoll_event (EPOLLIN OR EPOLLET) (- 1)),
                 Fcntl_getfl (- 1), Fcntl_setfl (- 1) (- 1)],
               errno := EBADF\<rparr>)"
    by (auto simp: ready_event_def accept_call_def addfd_def epoll_ctl_add_call_def logged_def
        Let_def setnonblocking_closed)
  then show "ready_events epollfd listenfd (r # rs) st =
      ready_events epollfd listenfd rs
        (st\<lparr>calls := calls st @
                [Accept listenfd,
                 Epoll_ctl_add epollfd (- 1) (Epoll_event (EPOLLIN OR EPOLLET) (- 1)),
                 Fcntl_getfl (- 1), Fcntl_setfl (- 1) (- 1)],
               errno := EBADF\<rparr>)"
    by simp
qed

theorem accept_once_witness:
  "ready_event 4 3 (Ready (Epoll_event EPOLLIN 3) (Returns 7)) example_ready =
     Some (example_ready\<lparr>calls := calls example_ready @
              [Accept 3, Epoll_ctl_add 4 7 (Epoll_event (EPOLLIN OR EPOLLET) 7),
               Fcntl_getfl 7, Fcntl_setfl 7 (O_RDWR OR O_NONBLOCK)],
             flags := (flags example_ready)(7 \<mapsto> O_RDWR OR O_NONBLOCK),
             interest := (interest example_ready)(7 \<mapsto> Epoll_event (EPOLLIN OR EPOLLET) 7)\<rparr>)
   \<and> ready_event 4 3 (Ready (Epoll_event EPOLLIN 3) (Fails EAGAIN)) example_ready =
     Some (example_ready\<lparr>calls := calls example_ready @
              [Accept 3, Epoll_ctl_add 4 (- 1) (Epoll_event (EPOLLIN OR EPOLLET) (- 1)),
               Fcntl_getfl (- 1), Fcntl_setfl (- 1) (- 1)],
             errno := EBADF\<rparr>)"
  using accept_once [where r = "Ready (Epoll_event EPOLLIN 3) (Returns 7)" and listenfd = 3
      and st = example_ready and epollfd = 4]
    accept_once [where r = "Ready (Epoll_event EPOLLIN 3) (Fails EAGAIN)" and listenfd = 3
      and st = example_ready and epollfd = 4 and rs = "[]"]
  by (simp add: example_ready_def)

subsection \<open>The flag and the rest of a batch\<close>

lemma addfd_stop_server:
  "addfd epollfd fd (st\<lparr>stop_server := b\<rparr>) = (addfd epollfd fd st)\<lparr>stop_server := b\<rparr>"
  by (simp add: addfd_def setnonblocking_def epoll_ctl_add_call_def fcntl_getfl_call_def
      fcntl_setfl_call_def logged_def Let_def split: option.split)

lemma accept_call_stop_server:
  "accept_call fd r (st\<lparr>stop_server := b\<rparr>) =
     (fst (accept_call fd r st), (snd (accept_call fd r st))\<lparr>stop_server := b\<rparr>)"
  by (cases r) (simp_all add: accept_call_def logged_def)

lemma ready_event_listen_stop_server:
  "data_fd (event r) = listenfd \<Longrightarrow>
   ready_event epollfd listenfd r (st\<lparr>stop_server := b\<rparr>) =
     Some ((addfd epollfd (fst (accept_call listenfd (conn r) st))
             (snd (accept_call listenfd (conn r) st)))\<lparr>stop_server := b\<rparr>)"
  by (simp add: ready_event_listen accept_call_stop_server addfd_stop_server)

lemma ready_event_stop_server:
  assumes "ready_event epollfd listenfd r (st\<lparr>stop_server := False\<rparr>) = Some st1"
  shows "ready_event epollfd listenfd r (st\<lparr>stop_server := True\<rparr>) =
     Some (st1\<lparr>stop_server := True\<rparr>)"
proof (cases "data_fd (event r) = listenfd")
  case True
  with assms show ?thesis
    by (auto simp: ready_event_listen_stop_server)
next
  case False
  with assms show ?thesis
    by (auto simp: ready_event_def recv_call_def logged_def Let_def switch_signals_all
        split: option.splits if_splits)
qed

lemma ready_events_keep_stop:
  "stop_server st \<Longrightarrow> ready_events epollfd listenfd rs st = Some st' \<Longrightarrow> stop_server st'"
  using ready_events_log [of epollfd listenfd rs st st'] by blast

lemma ready_events_stop_server:
  "ready_events epollfd listenfd rs (st\<lparr>stop_server := False\<rparr>) = Some st3 \<Longrightarrow>
   ready_events epollfd listenfd rs (st\<lparr>stop_server := True\<rparr>) = Some (st3\<lparr>stop_server := True\<rparr>)"
proof (induction rs arbitrary: st)
  case Nil
  then show ?case by auto
next
  case (Cons r rs)
  then obtain st1 where e: "ready_event epollfd listenfd r (st\<lparr>stop_server := False\<rparr>) = Some st1"
    and rest: "ready_events epollfd listenfd rs st1 = Some st3"
    by (auto split: option.splits)
  have e': "ready_event epollfd listenfd r (st\<lparr>stop_server := True\<rparr>) =
      Some (st1\<lparr>stop_server := True\<rparr>)"
    using e by (rule ready_event_stop_server)
  have "ready_events epollfd listenfd rs (st1\<lparr>stop_server := True\<rparr>) =
      Some (st3\<lparr>stop_server := True\<rparr>)"
  proof (cases "stop_server st1")
    case True
    then have "st1\<lparr>stop_server := True\<rparr> = st1" by simp
    moreover have "stop_server st3" using True rest by (rule ready_events_keep_stop)
    then have "st3\<lparr>stop_server := True\<rparr> = st3" by simp
    ultimately show ?thesis using rest by simp
  next
    case False
    then have "st1\<lparr>stop_server := False\<rparr> = st1" by simp
    with rest have "ready_events epollfd listenfd rs (st1\<lparr>stop_server := False\<rparr>) = Some st3"
      by simp
    then show ?thesis by (rule Cons.IH)
  qed
  with e' show ?case by simp
qed

lemma ready_event_accepts:
  assumes "ready_event epollfd listenfd r st = Some st'"
  shows "length (filter ((=) (Accept listenfd)) (calls st')) =
     length (filter ((=) (Accept listenfd)) (calls st))
       + (if data_fd (event r) = listenfd then 1 else 0)"
proof (cases "data_fd (event r) = listenfd")
  case True
  with assms have "st' = addfd epollfd (fst (accept_call listenfd (conn r) st))
      (snd (accept_call listenfd (conn r) st))"
    by (simp add: ready_event_listen)
  with True show ?thesis by (simp add: addfd_calls accept_call_frame)
next
  case False
  with assms have "calls st' = calls st \<or> (\<exists>bs. calls st' = calls st @ [Recv (pipefd0 st) 1024 bs])"
    by (auto simp: ready_event_def recv_call_def logged_def Let_def switch_signals_all
        split: option.splits if_splits)
  with False show ?thesis by auto
qed

lemma ready_events_accepts:
  "ready_events epollfd listenfd rs st = Some st' \<Longrightarrow>
   length (filter ((=) (Accept listenfd)) (calls st')) =
     length (filter ((=) (Accept listenfd)) (calls st))
       + length (filter (\<lambda>r. data_fd (event r) = listenfd) rs)"
proof (induction rs arbitrary: st)
  case Nil
  then show ?case by simp
next
  case (Cons r rs)
  then obtain st1 where e: "ready_event epollfd listenfd r st = Some st1"
    and rest: "ready_events epollfd listenfd rs st1 = Some st'"
    by (auto split: option.splits)
  from ready_event_accepts [OF e] Cons.IH [OF rest] show ?case by simp
qed

text \<open>
  C9. Let a batch be split in two, the flag be set by the time the first part is done,
  and the second part, run with the flag clear, end in \<open>st3\<close>. Then the round does not
  stop at the split: it runs the second part exactly as it would have run with the flag
  clear (every \<open>accept\<close>, registration and \<open>recv\<close> of it), and only then is the loop
  left, in \<open>st3\<close> with the flag set. In particular each entry for the listening
  descriptor in the second part has its \<open>accept\<close> call.
\<close>

theorem batch_finished_before_exit:
  assumes "\<not> stop_server st"
    and "result s = Wait_ready (rs1 @ rs2)" and "length (rs1 @ rs2) \<le> MAX_EVENT_NUMBER"
    and "deliver_all (arrivals s) (logged (Epoll_wait epollfd) st) = Some st1"
    and "ready_events epollfd listenfd rs1 st1 = Some st2" and "stop_server st2"
    and "ready_events epollfd listenfd rs2 (st2\<lparr>stop_server := False\<rparr>) = Some st3"
  shows "event_loop epollfd listenfd (s # ss) st = Inr (st3\<lparr>stop_server := True\<rparr>, ss)
     \<and> length (filter ((=) (Accept listenfd)) (calls st3)) =
         length (filter ((=) (Accept listenfd)) (calls st2))
           + length (filter (\<lambda>r. data_fd (event r) = listenfd) rs2)"
proof
  have w: "epoll_wait_call epollfd MAX_EVENT_NUMBER s st =
      Some (int (length (rs1 @ rs2)), rs1 @ rs2, st1)"
    using assms(2,3,4) by (simp add: epoll_wait_call_def)
  have "st2\<lparr>stop_server := True\<rparr> = st2" using assms(6) by simp
  moreover have "ready_events epollfd listenfd rs2 (st2\<lparr>stop_server := True\<rparr>) =
      Some (st3\<lparr>stop_server := True\<rparr>)"
    using assms(7) by (rule ready_events_stop_server)
  ultimately have "ready_events epollfd listenfd rs2 st2 = Some (st3\<lparr>stop_server := True\<rparr>)"
    by simp
  with assms(5) have "ready_events epollfd listenfd (rs1 @ rs2) st1 =
      Some (st3\<lparr>stop_server := True\<rparr>)"
    by (simp add: ready_events_append)
  with w have "loop_body epollfd listenfd s st = Continue (st3\<lparr>stop_server := True\<rparr>)"
    by (simp add: loop_body_def)
  moreover have "event_loop epollfd listenfd ss (st3\<lparr>stop_server := True\<rparr>) =
      Inr (st3\<lparr>stop_server := True\<rparr>, ss)"
    by (rule event_loop_stopped) simp
  ultimately show "event_loop epollfd listenfd (s # ss) st = Inr (st3\<lparr>stop_server := True\<rparr>, ss)"
    using assms(1) by simp
  have "calls (st2\<lparr>stop_server := False\<rparr>) = calls st2" by simp
  with ready_events_accepts [OF assms(7)]
  show "length (filter ((=) (Accept listenfd)) (calls st3)) =
      length (filter ((=) (Accept listenfd)) (calls st2))
        + length (filter (\<lambda>r. data_fd (event r) = listenfd) rs2)"
    by simp
qed

theorem batch_finished_before_exit_witness:
  "event_loop 4 3
     [Step [SIGTERM]
        (Wait_ready ([Ready (Epoll_event EPOLLIN 5) (Fails EAGAIN)]
           @ [Ready (Epoll_event EPOLLIN 5) (Fails EAGAIN), Ready (Epoll_event EPOLLIN 3) (Returns 7)])),
      Step [] (Wait_ready [])]
     example_ready =
   Inr (example_ready
          \<lparr>calls := calls example_ready @
             [Epoll_wait 4, Send 6 [15], Recv 5 1024 [15], Recv 5 1024 [], Accept 3,
              Epoll_ctl_add 4 7 (Epoll_event 2147483649 7), Fcntl_getfl 7, Fcntl_setfl 7 2050],
           errno := 11,
           flags := (flags example_ready)(7 \<mapsto> 2050),
           interest := (interest example_ready)(7 \<mapsto> Epoll_event 2147483649 7),
           stop_server := False\<rparr>
          \<lparr>stop_server := True\<rparr>,
        [Step [] (Wait_ready [])])
   \<and> length (filter ((=) (Accept 3))
         (calls (example_ready
          \<lparr>calls := calls example_ready @
             [Epoll_wait 4, Send 6 [15], Recv 5 1024 [15], Recv 5 1024 [], Accept 3,
              Epoll_ctl_add 4 7 (Epoll_event 2147483649 7), Fcntl_getfl 7, Fcntl_setfl 7 2050],
           errno := 11,
           flags := (flags example_ready)(7 \<mapsto> 2050),
           interest := (interest example_ready)(7 \<mapsto> Epoll_event 2147483649 7),
           stop_server := False\<rparr>))) =
     length (filter ((=) (Accept 3))
         (calls (example_ready
          \<lparr>calls := calls example_ready @ [Epoll_wait 4, Send 6 [15], Recv 5 1024 [15]],
           stop_server := True\<rparr>)))
     + length (filter (\<lambda>r. data_fd (event r) = 3)
         [Ready (Epoll_event EPOLLIN 5) (Fails EAGAIN), Ready (Epoll_event EPOLLIN 3) (Returns 7)])"
proof (rule batch_finished_before_exit)
  show "\<not> stop_server example_ready"
    by (simp add: example_ready_def)
  show "result (Step [SIGTERM]
        (Wait_ready ([Ready (Epoll_event EPOLLIN 5) (Fails EAGAIN)]
           @ [Ready (Epoll_event EPOLLIN 5) (Fails EAGAIN), Ready (Epoll_event EPOLLIN 3) (Returns 7)]))) =
      Wait_ready ([Ready (Epoll_event EPOLLIN 5) (Fails EAGAIN)]
           @ [Ready (Epoll_event EPOLLIN 5) (Fails EAGAIN), Ready (Epoll_event EPOLLIN 3) (Returns 7)])"
    by simp
  show "length ([Ready (Epoll_event EPOLLIN 5) (Fails EAGAIN)]
           @ [Ready (Epoll_event EPOLLIN 5) (Fails EAGAIN), Ready (Epoll_event EPOLLIN 3) (Returns 7)])
      \<le> MAX_EVENT_NUMBER"
    by (simp add: MAX_EVENT_NUMBER_def)
  show "deliver_all (arrivals (Step [SIGTERM]
        (Wait_ready ([Ready (Epoll_event EPOLLIN 5) (Fails EAGAIN)]
           @ [Ready (Epoll_event EPOLLIN 5) (Fails EAGAIN), Ready (Epoll_event EPOLLIN 3) (Returns 7)]))))
      (logged (Epoll_wait 4) example_ready) =
      Some (example_ready\<lparr>calls := calls example_ready @ [Epoll_wait 4, Send 6 [15]],
              bridge := [15]\<rparr>)"
    by (simp add: example_ready_def header_defs call_defs program_defs first_object_byte
        cong: let_weak_cong prod.case_cong_weak)
  show "ready_events 4 3 [Ready (Epoll_event EPOLLIN 5) (Fails EAGAIN)]
      (example_ready\<lparr>calls := calls example_ready @ [Epoll_wait 4, Send 6 [15]], bridge := [15]\<rparr>) =
      Some (example_ready
          \<lparr>calls := calls example_ready @ [Epoll_wait 4, Send 6 [15], Recv 5 1024 [15]],
           stop_server := True\<rparr>)"
    by (simp add: example_ready_def header_defs call_defs program_defs first_object_byte
        cong: let_weak_cong prod.case_cong_weak)
  show "stop_server (example_ready
          \<lparr>calls := calls example_ready @ [Epoll_wait 4, Send 6 [15], Recv 5 1024 [15]],
           stop_server := True\<rparr>)"
    by simp
  show "ready_events 4 3
      [Ready (Epoll_event EPOLLIN 5) (Fails EAGAIN), Ready (Epoll_event EPOLLIN 3) (Returns 7)]
      (example_ready
          \<lparr>calls := calls example_ready @ [Epoll_wait 4, Send 6 [15], Recv 5 1024 [15]],
           stop_server := True\<rparr>\<lparr>stop_server := False\<rparr>) =
      Some (example_ready
          \<lparr>calls := calls example_ready @
             [Epoll_wait 4, Send 6 [15], Recv 5 1024 [15], Recv 5 1024 [], Accept 3,
              Epoll_ctl_add 4 7 (Epoll_event 2147483649 7), Fcntl_getfl 7, Fcntl_setfl 7 2050],
           errno := 11,
           flags := (flags example_ready)(7 \<mapsto> 2050),
           interest := (interest example_ready)(7 \<mapsto> Epoll_event 2147483649 7),
           stop_server := False\<rparr>)"
    by (simp add: example_ready_def header_defs call_defs program_defs first_object_byte
        cong: let_weak_cong prod.case_cong_weak)
qed

subsection \<open>Setup and teardown\<close>

lemma nonblock_nonzero: "O_NONBLOCK \<noteq> 0"
  by (simp add: O_NONBLOCK_def)

lemma addsig_installs:
  "sig = SIGHUP \<or> sig = SIGCHLD \<or> sig = SIGTERM \<or> sig = SIGINT \<Longrightarrow>
   addsig sig st = Inr (st\<lparr>calls := calls st @ [Sigaction sig], handlers := sig # handlers st\<rparr>)"
  by (auto simp: addsig_def sigaction_call_def logged_def header_defs)



lemma main_setup_listen_fails:
  assumes "socket_r b = Returns s" and "0 \<le> s" and "listen_r b = Fails e"
  shows "\<exists>st. main_setup b st0 = Inl (Aborted st)
     \<and> calls st = calls st0 @ [Socket, Bind s, Listen s]
     \<and> stderr st = stderr st0 @ [Assertion_failed ''ret != -1'']"
  using assms
  by (cases "bind_r b")
    (simp_all add: main_setup_def socket_call_def bind_call_def listen_call_def logged_def
      printf_def assert_failed_def cong: let_weak_cong prod.case_cong_weak)

lemma main_setup_completes:
  assumes "socket_r b = Returns s" and "0 \<le> s" and "listen_r b = Returns u"
    and "epoll_create_r b = Returns ep" and "ep \<noteq> - 1" and "socketpair_r b = Returns (p0, p1)"
  shows "\<exists>st. main_setup b st0 = Inr (ep, s, st)
     \<and> stdout st = stdout st0 @ (case bind_r b of Fails e \<Rightarrow> [Errno_is e] | Returns v \<Rightarrow> [])
     \<and> stderr st = stderr st0 \<and> \<not> stop_server st \<and> nonblocking_bridge st
     \<and> bridge st = [] \<and> capacity st = capacity st0"
proof -
  define st1 where "st1 = snd (socket_call (socket_r b) st0)"
  define st2 where "st2 = snd (bind_call s (bind_r b) st1)"
  define r2 where "r2 = fst (bind_call s (bind_r b) st1)"
  define st3 where "st3 = (if r2 = - 1 then printf (Errno_is (errno st2)) st2 else st2)"
  define st4 where "st4 = snd (listen_call s (listen_r b) st3)"
  define st5 where "st5 = snd (epoll_create_call (epoll_create_r b) st4)"
  define st6 where "st6 = addfd ep s st5"
  define st7 where "st7 = snd (socketpair_call (socketpair_r b) st6)"
  define st8 where "st8 = setnonblocking p1 st7"
  define st9 where "st9 = addfd ep p0 st8"
  define st13 where "st13 = st9\<lparr>calls := calls st9 @ [Sigaction SIGHUP, Sigaction SIGCHLD,
      Sigaction SIGTERM, Sigaction SIGINT],
    handlers := SIGINT # SIGTERM # SIGCHLD # SIGHUP # handlers st9\<rparr>"
  have c1: "socket_call (socket_r b) st0 = (s, st1)"
    using assms(1) by (simp add: st1_def socket_call_def)
  have c2: "bind_call s (bind_r b) st1 = (r2, st2)"
    by (simp add: r2_def st2_def)
  have c4: "listen_call s (listen_r b) st3 = (0, st4)"
    using assms(3) by (simp add: st4_def listen_call_def)
  have c5: "epoll_create_call (epoll_create_r b) st4 = (ep, st5)"
    using assms(4) by (simp add: st5_def epoll_create_call_def)
  have c7: "socketpair_call (socketpair_r b) st6 = (0, st7)"
    using assms(6) by (simp add: st7_def socketpair_call_def)
  have p7: "pipefd0 st7 = p0" "pipefd1 st7 = p1" "pair st7 = Some (p0, p1)"
    "flags st7 p0 = Some O_RDWR" "flags st7 p1 = Some O_RDWR"
    using assms(6) by (simp_all add: st7_def socketpair_call_def logged_def)
  have p8: "pipefd0 st8 = p0" "pipefd1 st8 = p1" "pair st8 = Some (p0, p1)"
    "flags st8 p0 \<noteq> None" "flags st8 p1 = Some (O_RDWR OR O_NONBLOCK)"
    using p7 by (simp_all add: st8_def setnonblocking_frame setnonblocking_flags)
  have p9: "pipefd0 st9 = p0" "pipefd1 st9 = p1" "pair st9 = Some (p0, p1)"
    using p8 by (simp_all add: st9_def addfd_frame)
  obtain f0 where q0: "flags st9 p0 = Some (f0 OR O_NONBLOCK)"
    using p8(4) by (auto simp: st9_def addfd_flags)
  obtain f1 where q1: "flags st9 p1 = Some (f1 OR O_NONBLOCK)"
    using p8(5) q0 by (cases "p1 = p0") (auto simp: st9_def addfd_flags)
  have f9: "nonblocking_bridge st9"
    by (simp add: nonblocking_bridge_def p9 q0 q1 nonblock_set nonblock_nonzero)
  have sigs: "addsig SIGHUP st9 = Inr (st9\<lparr>calls := calls st9 @ [Sigaction SIGHUP],
        handlers := SIGHUP # handlers st9\<rparr>)"
    by (simp add: addsig_installs)
  have run: "main_setup b st0 = Inr (ep, s, st13\<lparr>stop_server := False\<rparr>)"
    using assms(2,5) p7 p8
    by (simp add: main_setup_def c1 c2 c4 c5 c7 st3_def [symmetric] st6_def [symmetric]
        st8_def [symmetric] st9_def [symmetric] addsig_installs st13_def
        cong: let_weak_cong prod.case_cong_weak)
  have out: "stdout st13 = stdout st0 @ (case bind_r b of Fails e \<Rightarrow> [Errno_is e] | Returns v \<Rightarrow> [])"
    "stderr st13 = stderr st0"
    using assms(1,3,4,6)
    by (cases "bind_r b";
        simp add: st13_def st9_def st8_def st7_def st6_def st5_def st4_def st3_def st2_def st1_def
          r2_def addfd_frame setnonblocking_frame socketpair_call_def epoll_create_call_def
          listen_call_def bind_call_def socket_call_def logged_def printf_def)+
  have room: "bridge st13 = []" "capacity st13 = capacity st0"
    using assms(1,3,4,6)
    by (cases "bind_r b";
        simp add: st13_def st9_def st8_def st7_def st6_def st5_def st4_def st3_def st2_def st1_def
          r2_def addfd_frame setnonblocking_frame socketpair_call_def epoll_create_call_def
          listen_call_def bind_call_def socket_call_def logged_def printf_def)+
  have "nonblocking_bridge (st13\<lparr>stop_server := False\<rparr>)"
    using f9 by (simp add: st13_def nonblocking_bridge_def)
  with run out room show ?thesis by (intro exI [of _ "st13\<lparr>stop_server := False\<rparr>"]) simp
qed

subsection \<open>The claims about failures\<close>

text \<open>
  C5, as the code has it. When \<open>listen\<close> fails the assertion after it fails: the process
  aborts having called \<open>socket\<close>, \<open>bind\<close> and \<open>listen\<close> and nothing else, so the loop has
  not run. When \<open>bind\<close> fails \<open>main\<close> prints \<open>errno\<close> and goes on: if the remaining
  setup calls succeed, setup completes and the loop is entered with the flag clear.
\<close>

theorem listen_failure_aborts:
  assumes "2 < argc b" and "socket_r b = Returns s" and "0 \<le> s"
  shows "(\<forall>e. listen_r b = Fails e \<longrightarrow>
          (\<exists>st. server_main b steps = Aborted st \<and> calls st = [Socket, Bind s, Listen s]
             \<and> stderr st = [Assertion_failed ''ret != -1'']))
     \<and> (\<forall>e u ep p0 p1.
          bind_r b = Fails e \<and> listen_r b = Returns u \<and> epoll_create_r b = Returns ep
            \<and> ep \<noteq> - 1 \<and> socketpair_r b = Returns (p0, p1) \<longrightarrow>
          (\<exists>st. main_setup b (start (room b)) = Inr (ep, s, st) \<and> stdout st = [Errno_is e]
             \<and> \<not> stop_server st
             \<and> server_main b steps =
                 (case event_loop ep s steps st of
                    Inl out \<Rightarrow> out
                  | Inr (st1, rest) \<Rightarrow> teardown s st1)))"
proof (intro conjI allI impI)
  fix e
  assume "listen_r b = Fails e"
  from main_setup_listen_fails [OF assms(2,3) this, of "start (room b)"]
  obtain st where "main_setup b (start (room b)) = Inl (Aborted st)"
    and "calls st = [Socket, Bind s, Listen s]"
    and "stderr st = [Assertion_failed ''ret != -1'']"
    by (auto simp: start_def)
  with assms(1) show "\<exists>st. server_main b steps = Aborted st \<and> calls st = [Socket, Bind s, Listen s]
      \<and> stderr st = [Assertion_failed ''ret != -1'']"
    by (simp add: server_main_def)
next
  fix e u ep p0 p1
  assume a: "bind_r b = Fails e \<and> listen_r b = Returns u \<and> epoll_create_r b = Returns ep
    \<and> ep \<noteq> - 1 \<and> socketpair_r b = Returns (p0, p1)"
  then have "listen_r b = Returns u" "epoll_create_r b = Returns ep" "ep \<noteq> - 1"
    "socketpair_r b = Returns (p0, p1)" "bind_r b = Fails e"
    by simp_all
  from main_setup_completes [OF assms(2,3) this(1-4), of "start (room b)"] this(5)
  obtain st where "main_setup b (start (room b)) = Inr (ep, s, st)"
    and "stdout st = [Errno_is e]" and "\<not> stop_server st"
    by (auto simp: start_def)
  with assms(1) show "\<exists>st. main_setup b (start (room b)) = Inr (ep, s, st) \<and> stdout st = [Errno_is e]
      \<and> \<not> stop_server st
      \<and> server_main b steps =
          (case event_loop ep s steps st of Inl out \<Rightarrow> out | Inr (st1, rest) \<Rightarrow> teardown s st1)"
    by (simp add: server_main_def)
qed

theorem listen_failure_aborts_witness:
  "(\<exists>st. server_main (example_boot\<lparr>listen_r := Fails 98\<rparr>) [Step [] (Wait_ready [])] = Aborted st
      \<and> calls st = [Socket, Bind 3, Listen 3] \<and> stderr st = [Assertion_failed ''ret != -1''])
   \<and> (\<exists>st. main_setup (example_boot\<lparr>bind_r := Fails 98\<rparr>)
            (start (room (example_boot\<lparr>bind_r := Fails 98\<rparr>))) = Inr (4, 3, st)
      \<and> stdout st = [Errno_is 98] \<and> \<not> stop_server st
      \<and> server_main (example_boot\<lparr>bind_r := Fails 98\<rparr>) [Step [] (Wait_ready [])] =
          (case event_loop 4 3 [Step [] (Wait_ready [])] st of
             Inl out \<Rightarrow> out
           | Inr (st1, rest) \<Rightarrow> teardown 3 st1))"
  using listen_failure_aborts [of "example_boot\<lparr>listen_r := Fails 98\<rparr>" 3 "[Step [] (Wait_ready [])]"]
    listen_failure_aborts [of "example_boot\<lparr>bind_r := Fails 98\<rparr>" 3 "[Step [] (Wait_ready [])]"]
  by (simp add: example_boot_def)

text \<open>
  C5 fails as stated. \<open>bind\<close> fails with \<open>EADDRINUSE\<close> and everything else succeeds:
  the process prints the \<open>errno\<close>, enters the loop, calls \<open>epoll_wait\<close> twice, stops
  on the SIGTERM that interrupted the first call and exits with status 0.
\<close>

theorem listen_failure_aborts_counterexample:
  "exit_status (server_main (example_boot\<lparr>bind_r := Fails 98\<rparr>)
      [Step [SIGTERM] (Wait_failed EINTR),
       Step [] (Wait_ready [Ready (Epoll_event EPOLLIN 5) (Fails EAGAIN)])]) = Some 0
   \<and> map_option calls (last_state (server_main (example_boot\<lparr>bind_r := Fails 98\<rparr>)
      [Step [SIGTERM] (Wait_failed EINTR),
       Step [] (Wait_ready [Ready (Epoll_event EPOLLIN 5) (Fails EAGAIN)])])) =
     Some [Socket, Bind 3, Listen 3, Epoll_create, Epoll_ctl_add 4 3 (Epoll_event 2147483649 3),
       Fcntl_getfl 3, Fcntl_setfl 3 2050, Socketpair, Fcntl_getfl 6, Fcntl_setfl 6 2050,
       Epoll_ctl_add 4 5 (Epoll_event 2147483649 5), Fcntl_getfl 5, Fcntl_setfl 5 2050,
       Sigaction 1, Sigaction 17, Sigaction 15, Sigaction 2,
       Epoll_wait 4, Send 6 [15], Epoll_wait 4, Recv 5 1024 [15], Close 3, Close 6, Close 5]
   \<and> map_option stdout (last_state (server_main (example_boot\<lparr>bind_r := Fails 98\<rparr>)
      [Step [SIGTERM] (Wait_failed EINTR),
       Step [] (Wait_ready [Ready (Epoll_event EPOLLIN 5) (Fails EAGAIN)])])) =
     Some [Errno_is 98, Close_fds]
   \<and> map_option stderr (last_state (server_main (example_boot\<lparr>bind_r := Fails 98\<rparr>)
      [Step [SIGTERM] (Wait_failed EINTR),
       Step [] (Wait_ready [Ready (Epoll_event EPOLLIN 5) (Fails EAGAIN)])])) =
     Some []"
proof -
  have "\<exists>st. server_main (example_boot\<lparr>bind_r := Fails 98\<rparr>)
          [Step [SIGTERM] (Wait_failed EINTR),
           Step [] (Wait_ready [Ready (Epoll_event EPOLLIN 5) (Fails EAGAIN)])] =
        Exited 0 st
     \<and> calls st = [Socket, Bind 3, Listen 3, Epoll_create, Epoll_ctl_add 4 3 (Epoll_event 2147483649 3),
       Fcntl_getfl 3, Fcntl_setfl 3 2050, Socketpair, Fcntl_getfl 6, Fcntl_setfl 6 2050,
       Epoll_ctl_add 4 5 (Epoll_event 2147483649 5), Fcntl_getfl 5, Fcntl_setfl 5 2050,
       Sigaction 1, Sigaction 17, Sigaction 15, Sigaction 2,
       Epoll_wait 4, Send 6 [15], Epoll_wait 4, Recv 5 1024 [15], Close 3, Close 6, Close 5]"
    by (simp add: example_boot_def header_defs call_defs program_defs first_object_byte
        cong: let_weak_cong prod.case_cong_weak)
  moreover have "\<exists>st. server_main (example_boot\<lparr>bind_r := Fails 98\<rparr>)
          [Step [SIGTERM] (Wait_failed EINTR),
           Step [] (Wait_ready [Ready (Epoll_event EPOLLIN 5) (Fails EAGAIN)])] =
        Exited 0 st
     \<and> stdout st = [Errno_is 98, Close_fds] \<and> stderr st = []"
    by (simp add: example_boot_def header_defs call_defs program_defs first_object_byte
        cong: let_weak_cong prod.case_cong_weak)
  ultimately show ?thesis by auto
qed




section \<open>Properties of the client\<close>

lemma process_cli_round_idle: "fst r \<le> 0 \<Longrightarrow> process_cli_round r out = out"
  by (simp add: process_cli_round_def Let_def)

lemma process_cli_rounds_snoc:
  "process_cli_rounds (rs @ [r]) out = process_cli_round r (process_cli_rounds rs out)"
  by (induction rs arbitrary: out) simp_all

lemma process_cli_diverges: "process_cli rx k out = None"
proof (cases "process_cli rx k out")
  case None
  then show ?thesis .
next
  case (Some y)
  have False
    using process_cli.raw_induct [where P = "\<lambda>_ _ _ _. False", OF _ Some] by blast
  then show ?thesis ..
qed

lemma func_step_rounds:
  "(func_step rx False ^^ n) (In_process_cli k out) =
     In_process_cli (k + n) (process_cli_rounds (map rx [k..<k + n]) out)"
proof (induction n)
  case 0
  then show ?case by simp
next
  case (Suc n)
  then show ?case by (simp add: process_cli_rounds_snoc)
qed

text \<open>What holds of the two threads after every step, from line 56 on.\<close>

lemma client_run_invariant:
  assumes "P c" and "\<And>t c'. P c' \<Longrightarrow> P (client_step rx t c')"
  shows "P (client_run rx ts c)"
  using assms(1)
proof (induction ts arbitrary: c)
  case Nil
  then show ?case by simp
next
  case (Cons t ts)
  from assms(2) [OF Cons.prems] have "P (client_step rx t c)" .
  from Cons.IH [OF this] show ?case by simp
qed

lemma client_step_keeps:
  assumes "\<exists>j. receiver c' = In_process_cli (k + j) (process_cli_rounds (map rx [k..<k + j]) out)
        \<or> cancel_requested c'
          \<and> receiver c' = Thread_cancelled (process_cli_rounds (map rx [k..<k + j]) out)"
    and "cancel_requested c' \<longleftrightarrow> main_at c' = At_close \<or> main_at c' = Main_returned"
    and "main_at c' \<noteq> In_while \<longrightarrow>
        ''bye'' \<in> set ls \<and> sent c' \<noteq> [] \<and> op (last (sent c')) = EXIT
        \<and> buf (last (sent c')) = ''bye''"
    and "set (input c') \<subseteq> set ls"
  shows "(\<exists>j. receiver (client_step rx t c') =
            In_process_cli (k + j) (process_cli_rounds (map rx [k..<k + j]) out)
        \<or> cancel_requested (client_step rx t c')
          \<and> receiver (client_step rx t c') =
              Thread_cancelled (process_cli_rounds (map rx [k..<k + j]) out))
     \<and> (cancel_requested (client_step rx t c') \<longleftrightarrow>
          main_at (client_step rx t c') = At_close \<or> main_at (client_step rx t c') = Main_returned)
     \<and> (main_at (client_step rx t c') \<noteq> In_while \<longrightarrow>
          ''bye'' \<in> set ls \<and> sent (client_step rx t c') \<noteq> []
          \<and> op (last (sent (client_step rx t c'))) = EXIT
          \<and> buf (last (sent (client_step rx t c'))) = ''bye'')
     \<and> set (input (client_step rx t c')) \<subseteq> set ls"
proof (cases "main_at c' = Main_returned")
  case True
  then have "client_step rx t c' = c'" by (simp add: client_step_def)
  with assms show ?thesis by simp
next
  case False
  show ?thesis
  proof (cases t)
    case Main_thread
    then have s: "client_step rx t c' = main_step c'"
      using False by (simp add: client_step_def)
    have r: "receiver (main_step c') = receiver c'"
      by (simp add: main_step_def Let_def split: main_at.split list.split)
    show ?thesis
    proof (cases "main_at c'")
      case In_while
      show ?thesis
      proof (cases "input c'")
        case Nil
        with In_while have "main_step c' = c'" by (simp add: main_step_def)
        with assms s show ?thesis by simp
      next
        case (Cons l rest)
        with In_while assms show ?thesis
          unfolding s by (auto simp: main_step_def Let_def)
      qed
    next
      case At_pthread_cancel
      with assms show ?thesis
        unfolding s by (auto simp: main_step_def)
    next
      case At_close
      with assms show ?thesis
        unfolding s by (auto simp: main_step_def)
    next
      case Main_returned
      with False show ?thesis by simp
    qed
  next
    case Receiving_thread
    then have s: "client_step rx t c' =
        c'\<lparr>receiver := func_step rx (cancel_requested c') (receiver c')\<rparr>"
      using False by (simp add: client_step_def)
    from assms(1) obtain j
      where j: "receiver c' = In_process_cli (k + j) (process_cli_rounds (map rx [k..<k + j]) out)
        \<or> cancel_requested c'
          \<and> receiver c' = Thread_cancelled (process_cli_rounds (map rx [k..<k + j]) out)"
      by blast
    have "\<exists>i. func_step rx (cancel_requested c') (receiver c') =
            In_process_cli (k + i) (process_cli_rounds (map rx [k..<k + i]) out)
        \<or> cancel_requested c'
          \<and> func_step rx (cancel_requested c') (receiver c') =
              Thread_cancelled (process_cli_rounds (map rx [k..<k + i]) out)"
    proof (cases "cancel_requested c'")
      case True
      with j show ?thesis by (intro exI [of _ j]) auto
    next
      case False
      with j have "func_step rx (cancel_requested c') (receiver c') =
          In_process_cli (Suc (k + j))
            (process_cli_round (rx (k + j)) (process_cli_rounds (map rx [k..<k + j]) out))"
        by simp
      then have "func_step rx (cancel_requested c') (receiver c') =
          In_process_cli (k + Suc j) (process_cli_rounds (map rx [k..<k + Suc j]) out)"
        by (simp add: process_cli_rounds_snoc)
      then show ?thesis by (intro exI [of _ "Suc j"]) simp
    qed
    with assms(2-4) show ?thesis unfolding s by simp
  qed
qed

text \<open>
  C10. \<open>process_cli\<close> does not return, whatever its \<open>recv\<close> calls return: after any
  number of rounds the thread is in the loop, at its next \<open>recv\<close>, with exactly the
  lines of those rounds printed. A round whose \<open>recv\<close> returned 0 or less prints nothing
  and is followed by the next \<open>recv\<close>. Under every schedule of the two threads from line
  56 on, the receiving thread never reaches line 82: it is in its loop, or it has been
  ended by a cancellation. \<open>pthread_cancel\<close> has been called only after \<open>gets\<close> read the
  line \<open>bye\<close> and the \<open>EXIT\<close> message was sent, and once it has been called the next
  \<open>recv\<close> of the thread ends it.
\<close>

theorem process_cli_never_returns:
  assumes "main_at c = In_while" and "receiver c = In_process_cli k out"
    and "\<not> cancel_requested c"
  shows "process_cli rx k out = None
   \<and> (func_step rx False ^^ n) (In_process_cli k out) =
       In_process_cli (k + n) (process_cli_rounds (map rx [k..<k + n]) out)
   \<and> (fst (rx k) \<le> 0 \<longrightarrow>
        func_step rx False (In_process_cli k out) = In_process_cli (Suc k) out)
   \<and> (\<exists>j. receiver (client_run rx ts c) =
            In_process_cli (k + j) (process_cli_rounds (map rx [k..<k + j]) out)
        \<or> cancel_requested (client_run rx ts c)
          \<and> receiver (client_run rx ts c) =
              Thread_cancelled (process_cli_rounds (map rx [k..<k + j]) out))
   \<and> (cancel_requested (client_run rx ts c) \<longrightarrow>
        ''bye'' \<in> set (input c) \<and> sent (client_run rx ts c) \<noteq> []
        \<and> op (last (sent (client_run rx ts c))) = EXIT
        \<and> buf (last (sent (client_run rx ts c))) = ''bye'')
   \<and> (cancel_requested (client_run rx ts c) \<and> main_at (client_run rx ts c) \<noteq> Main_returned \<longrightarrow>
        (\<exists>out'. receiver (client_step rx Receiving_thread (client_run rx ts c)) =
                  Thread_cancelled out'))"
proof -
  let ?R = "\<lambda>j. process_cli_rounds (map rx [k..<k + j]) out"
  let ?P = "\<lambda>c'. (\<exists>j. receiver c' = In_process_cli (k + j) (?R j)
          \<or> cancel_requested c' \<and> receiver c' = Thread_cancelled (?R j))
     \<and> (cancel_requested c' \<longleftrightarrow> main_at c' = At_close \<or> main_at c' = Main_returned)
     \<and> (main_at c' \<noteq> In_while \<longrightarrow>
          ''bye'' \<in> set (input c) \<and> sent c' \<noteq> [] \<and> op (last (sent c')) = EXIT
          \<and> buf (last (sent c')) = ''bye'')
     \<and> set (input c') \<subseteq> set (input c)"
  have "receiver c = In_process_cli (k + 0) (?R 0)"
    using assms(2) by simp
  then have start: "?P c"
    using assms(1,3) by (intro conjI exI [of _ 0]) simp_all
  have step: "?P (client_step rx t c')" if "?P c'" for t c'
    using that by (intro client_step_keeps) blast+
  have inv: "?P (client_run rx ts c)"
    using start step by (rule client_run_invariant [where P = ?P])
  let ?c = "client_run rx ts c"
  have 1: "process_cli rx k out = None" by (rule process_cli_diverges)
  have 2: "(func_step rx False ^^ n) (In_process_cli k out) = In_process_cli (k + n) (?R n)"
    by (rule func_step_rounds)
  have 3: "fst (rx k) \<le> 0 \<longrightarrow>
      func_step rx False (In_process_cli k out) = In_process_cli (Suc k) out"
    by (simp add: process_cli_round_idle)
  have 4: "\<exists>j. receiver ?c = In_process_cli (k + j) (?R j)
      \<or> cancel_requested ?c \<and> receiver ?c = Thread_cancelled (?R j)"
    using inv by blast
  have 5: "cancel_requested ?c \<longrightarrow>
      ''bye'' \<in> set (input c) \<and> sent ?c \<noteq> [] \<and> op (last (sent ?c)) = EXIT
      \<and> buf (last (sent ?c)) = ''bye''"
    using inv by auto
  have 6: "cancel_requested ?c \<and> main_at ?c \<noteq> Main_returned \<longrightarrow>
      (\<exists>out'. receiver (client_step rx Receiving_thread ?c) = Thread_cancelled out')"
    using 4 by (auto simp: client_step_def)
  from 1 2 3 4 5 6 show ?thesis by (intro conjI)
qed

theorem process_cli_never_returns_witness:
  "process_cli (\<lambda>k. if k = 0 then (124, \<lparr>op = USER, username = ''ann'', buf = []\<rparr>)
                     else (0, \<lparr>op = 0, username = [], buf = []\<rparr>)) 0 [] = None
   \<and> (func_step (\<lambda>k. if k = 0 then (124, \<lparr>op = USER, username = ''ann'', buf = []\<rparr>)
                       else (0, \<lparr>op = 0, username = [], buf = []\<rparr>)) False ^^ 2)
        (In_process_cli 0 []) = In_process_cli 2 [Login ''ann'']
   \<and> func_step (\<lambda>k. if k = 0 then (124, \<lparr>op = USER, username = ''ann'', buf = []\<rparr>)
                      else (0, \<lparr>op = 0, username = [], buf = []\<rparr>)) False
        (In_process_cli 1 [Login ''ann'']) = In_process_cli 2 [Login ''ann'']
   \<and> client_run (\<lambda>k. if k = 0 then (124, \<lparr>op = USER, username = ''ann'', buf = []\<rparr>)
                     else (0, \<lparr>op = 0, username = [], buf = []\<rparr>))
        [Receiving_thread, Main_thread, Receiving_thread, Main_thread, Main_thread,
         Receiving_thread]
        \<lparr>clientMsgSend = \<lparr>op = USER, username = ''bob'', buf = []\<rparr>,
         input = [''hi'', ''bye'', ''late''], sent = [], main_at = In_while,
         cancel_requested = False, receiver = In_process_cli 0 []\<rparr> =
       \<lparr>clientMsgSend = \<lparr>op = EXIT, username = ''bob'', buf = ''bye''\<rparr>,
        input = [''late''],
        sent = [\<lparr>op = MSG, username = ''bob'', buf = ''hi''\<rparr>,
                \<lparr>op = EXIT, username = ''bob'', buf = ''bye''\<rparr>],
        main_at = At_close, cancel_requested = True,
        receiver = Thread_cancelled [Login ''ann'']\<rparr>"
proof -
  let ?rx = "\<lambda>k::nat. if k = 0 then (124::int, \<lparr>op = USER, username = ''ann'', buf = []\<rparr>)
                     else (0, \<lparr>op = 0, username = [], buf = []\<rparr>)"
  let ?c = "\<lparr>clientMsgSend = \<lparr>op = USER, username = ''bob'', buf = []\<rparr>,
         input = [''hi'', ''bye'', ''late''], sent = [], main_at = In_while,
         cancel_requested = False, receiver = In_process_cli 0 []\<rparr>"
  let ?c1 = "\<lparr>clientMsgSend = \<lparr>op = USER, username = ''bob'', buf = []\<rparr>,
         input = [''hi'', ''bye'', ''late''], sent = [], main_at = In_while,
         cancel_requested = False, receiver = In_process_cli 1 [Login ''ann'']\<rparr>"
  let ?ts = "[Receiving_thread, Main_thread, Receiving_thread, Main_thread, Main_thread,
         Receiving_thread]"
  have r: "process_cli_rounds (map ?rx [0..<2]) [] = [Login ''ann'']"
    by (simp add: upt_rec process_cli_round_def)
  have t: "process_cli ?rx 0 [] = None
     \<and> (func_step ?rx False ^^ 2) (In_process_cli 0 []) =
         In_process_cli (0 + 2) (process_cli_rounds (map ?rx [0..<0 + 2]) [])"
    using process_cli_never_returns [of ?c 0 "[]" ?rx 2 ?ts] by simp
  have "fst (?rx 1) \<le> 0 \<longrightarrow>
      func_step ?rx False (In_process_cli 1 [Login ''ann'']) =
        In_process_cli (Suc 1) [Login ''ann'']"
    using process_cli_never_returns [of ?c1 1 "[Login ''ann'']" ?rx 0 "[]"] by simp
  then have idle: "func_step ?rx False (In_process_cli 1 [Login ''ann'']) =
      In_process_cli 2 [Login ''ann'']"
    by (simp only: Suc_1) simp
  have run: "client_run ?rx ?ts ?c =
       \<lparr>clientMsgSend = \<lparr>op = EXIT, username = ''bob'', buf = ''bye''\<rparr>,
        input = [''late''],
        sent = [\<lparr>op = MSG, username = ''bob'', buf = ''hi''\<rparr>,
                \<lparr>op = EXIT, username = ''bob'', buf = ''bye''\<rparr>],
        main_at = At_close, cancel_requested = True,
        receiver = Thread_cancelled [Login ''ann'']\<rparr>"
    by (simp add: client_step_def main_step_def process_cli_round_def Let_def
        EXIT_def USER_def MSG_def)
  from t have "process_cli ?rx 0 [] = None"
    and "(func_step ?rx False ^^ 2) (In_process_cli 0 []) = In_process_cli 2 [Login ''ann'']"
    by (simp_all only: add_0 r)
  with idle run show ?thesis by (intro conjI)
qed

end
